theory Spec2Isabelle
  imports Main
begin

section \<open>Strings and formatting\<close>

text \<open>
  Go strings are byte sequences; they are modelled as \<open>string\<close> (a list of 8-bit characters).
  The few characters that cannot be written inside a literal get a name.
\<close>

abbreviation NL :: char where "NL \<equiv> CHR 0x0A"
abbreviation CR :: char where "CR \<equiv> CHR 0x0D"
abbreviation DQ :: char where "DQ \<equiv> CHR 0x22"
abbreviation SQ :: char where "SQ \<equiv> CHR 0x27"

definition digit_char :: "nat \<Rightarrow> char" where
  "digit_char d = ''0123456789'' ! d"

text \<open>The verb \<open>%d\<close> of \<open>fmt\<close>: decimal digits, a minus sign for a negative value.\<close>

fun show_nat :: "nat \<Rightarrow> string" where
  "show_nat n = (if n < 10 then [digit_char n] else show_nat (n div 10) @ [digit_char (n mod 10)])"

declare show_nat.simps [simp del]

definition sprintf_d :: "int \<Rightarrow> string" where
  "sprintf_d i = (if i < 0 then CHR ''-'' # show_nat (nat (- i)) else show_nat (nat i))"

text \<open>\<open>strings.HasPrefix(s, p)\<close>.\<close>

definition has_prefix :: "string \<Rightarrow> string \<Rightarrow> bool" where
  "has_prefix s p = (take (length p) s = p)"

text \<open>
  \<open>strings.Split(s, sep)\<close> for a one-byte separator: all the substrings between separators,
  so that the empty string gives one empty substring.
\<close>

fun split_on :: "char \<Rightarrow> string \<Rightarrow> string list" where
  "split_on sep [] = [[]]"
| "split_on sep (c # cs) =
     (if c = sep then [] # split_on sep cs
      else (case split_on sep cs of [] \<Rightarrow> [[c]] | t # ts \<Rightarrow> (c # t) # ts))"

text \<open>
  Go reads a string as UTF-8 wherever it looks at characters rather than bytes.
  \<open>utf8.DecodeRuneInString\<close>: the code point at the head of the string and the number of
  bytes it takes; a byte that starts no well-formed encoding gives \<open>RuneError\<close> and takes
  one byte. The second byte of an encoding has to lie in a range that depends on the first,
  every later byte between \<open>0x80\<close> and \<open>0xBF\<close>.
\<close>

definition byte_val :: "char \<Rightarrow> nat" where
  "byte_val c = of_char c"

definition RuneError :: nat where
  "RuneError = 0xFFFD"

fun DecodeRune :: "string \<Rightarrow> nat \<times> nat" where
  "DecodeRune [] = (RuneError, 0)"
| "DecodeRune (c # cs) =
     (let s0 = byte_val c
      in if s0 < 0x80 then (s0, 1)
         else if s0 < 0xC2 \<or> 0xF4 < s0 then (RuneError, 1)
         else
           (let sz = (if s0 < 0xE0 then 2 else if s0 < 0xF0 then 3 else 4);
                lo = (if s0 = 0xE0 then 0xA0 else if s0 = 0xF0 then 0x90 else 0x80);
                hi = (if s0 = 0xED then 0x9F else if s0 = 0xF4 then 0x8F else 0xBF)
            in if length (c # cs) < sz then (RuneError, 1)
               else
                 (let s1 = byte_val (cs ! 0)
                  in if s1 < lo \<or> hi < s1 then (RuneError, 1)
                     else if sz \<le> 2 then ((s0 mod 0x20) * 0x40 + s1 mod 0x40, 2)
                     else
                       (let s2 = byte_val (cs ! 1)
                        in if s2 < 0x80 \<or> 0xBF < s2 then (RuneError, 1)
                           else if sz \<le> 3
                           then ((s0 mod 0x10) * 0x1000 + (s1 mod 0x40) * 0x40 + s2 mod 0x40, 3)
                           else
                             (let s3 = byte_val (cs ! 2)
                              in if s3 < 0x80 \<or> 0xBF < s3 then (RuneError, 1)
                                 else ((s0 mod 0x08) * 0x40000 + (s1 mod 0x40) * 0x1000
                                       + (s2 mod 0x40) * 0x40 + s3 mod 0x40, 4))))))"

text \<open>
  White space as \<open>unicode.IsSpace\<close> and the scanner of \<open>fmt\<close> define it (the two tables
  agree): tab to carriage return, space, U+0085, U+00A0, U+1680, U+2000 to U+200A, U+2028,
  U+2029, U+202F, U+205F and U+3000.
\<close>

definition IsSpace :: "nat \<Rightarrow> bool" where
  "IsSpace r =
     ((0x09 \<le> r \<and> r \<le> 0x0D) \<or> r = 0x20 \<or> r = 0x85 \<or> r = 0xA0 \<or> r = 0x1680
      \<or> (0x2000 \<le> r \<and> r \<le> 0x200A) \<or> r = 0x2028 \<or> r = 0x2029 \<or> r = 0x202F
      \<or> r = 0x205F \<or> r = 0x3000)"

text \<open>A string cut into its code points, as \<open>range\<close> over a string does, each with its bytes.\<close>

fun runes :: "string \<Rightarrow> (nat \<times> string) list" where
  "runes [] = []"
| "runes (c # cs) =
     (let w = snd (DecodeRune (c # cs))
      in (fst (DecodeRune (c # cs)), take w (c # cs)) # runes (drop (w - 1) cs))"

text \<open>
  \<open>strings.Fields(s)\<close>: the maximal runs of code points that are not white space. (On a
  string of ASCII bytes only the library takes a shortcut over the bytes, with the same
  result.) \<open>cur\<close> is the field being read, if any.
\<close>

fun fields_from :: "string option \<Rightarrow> (nat \<times> string) list \<Rightarrow> string list" where
  "fields_from cur [] = (case cur of None \<Rightarrow> [] | Some f \<Rightarrow> [f])"
| "fields_from cur ((r, bs) # rs) =
     (if IsSpace r
      then (case cur of None \<Rightarrow> fields_from None rs | Some f \<Rightarrow> f # fields_from None rs)
      else (case cur of
              None \<Rightarrow> fields_from (Some bs) rs
            | Some f \<Rightarrow> fields_from (Some (f @ bs)) rs))"

definition Fields :: "string \<Rightarrow> string list" where
  "Fields s = fields_from None (runes s)"

text \<open>
  \<open>strings.ToUpper(string(b))\<close> for one byte \<open>b\<close>: the conversion makes of the byte the
  code point of that value, so a byte from \<open>0x80\<close> on becomes a string of two bytes; of
  these code points \<open>unicode.ToUpper\<close> changes U+00B5 (to U+039C), U+00E0 to U+00FE
  without U+00F7 (32 less) and U+00FF (to U+0178).
\<close>

definition to_upper :: "char \<Rightarrow> char" where
  "to_upper c =
     (case map_of (zip ''abcdefghijklmnopqrstuvwxyz'' ''ABCDEFGHIJKLMNOPQRSTUVWXYZ'') c of
        None \<Rightarrow> c
      | Some u \<Rightarrow> u)"

definition ToUpper_byte :: "char \<Rightarrow> string" where
  "ToUpper_byte c =
     (let r = byte_val c
      in if r < 0x80 then [to_upper c]
         else
           (let u = (if r = 0xB5 then 0x39C
                     else if (0xE0 \<le> r \<and> r \<le> 0xF6) \<or> (0xF8 \<le> r \<and> r \<le> 0xFE) then r - 32
                     else if r = 0xFF then 0x178
                     else r)
            in [char_of (0xC0 + u div 0x40), char_of (0x80 + u mod 0x40)]))"

text \<open>A slice of strings under \<open>%+v\<close>: the elements between brackets, separated by spaces.\<close>

fun join_sp :: "string list \<Rightarrow> string" where
  "join_sp [] = []"
| "join_sp [x] = x"
| "join_sp (x # y # ys) = x @ '' '' @ join_sp (y # ys)"

definition show_strs :: "string list \<Rightarrow> string" where
  "show_strs xs = ''['' @ join_sp xs @ '']''"

section \<open>The outside world and the state of a run\<close>

text \<open>
  An \<open>exec.Cmd\<close> as \<open>exec.Command(name, arg...)\<close> sets it up: the name given for
  the program (the library looks a name without a slash up in the search path to find the
  executable; that lookup belongs to the launch, whose outcome the world decides), its
  argument vector (with the name first) and its environment (\<open>Env\<close>, empty when the
  child inherits the environment of the harness).
\<close>

record cmd =
  cmd_name :: string
  args :: "string list"
  env :: "string list"

definition Command :: "string \<Rightarrow> string list \<Rightarrow> cmd" where
  "Command name arg = \<lparr>cmd_name = name, args = name # arg, env = []\<rparr>"

text \<open>An open \<open>*os.File\<close> to write to: the diagnostic stream or a named file.\<close>

datatype handle = Stderr | OpenFile string

text \<open>
  What the harness has done so far: the files it has written, the text on its diagnostic
  stream, the processes it has launched (in order) and the number of times it has read the
  clock. A file is known by the name under which the harness opens it; different names are
  taken to name different files.
\<close>

record state =
  files :: "string \<rightharpoonup> string"
  stderr :: string
  procs :: "cmd list"
  ticks :: nat

text \<open>
  What the harness cannot decide: the outcome of the n-th process it launches
  (\<open>CombinedOutput\<close>: the error with the output, or the output), the clock at its n-th
  reading (in nanoseconds), the ambient environment, which files can be opened for reading and
  which can be created, the name given to a temporary file, and the configuration file as
  the line scanner delivers it (see \<open>readvariants\<close>). A process acts on the harness
  through its outcome only: the files the harness writes are taken to be out of its reach.
\<close>

record scanned =
  lines_of :: "string list"
  scan_err :: "string option"

record world =
  run :: "nat \<Rightarrow> cmd \<Rightarrow> (string \<times> string) + string"
  clock :: "nat \<Rightarrow> int"
  environ :: "string list"
  can_open :: "string \<Rightarrow> bool"
  can_create :: "string \<Rightarrow> bool"
  tempfile :: "string \<Rightarrow> string + string"
  variants_txt :: "string + scanned"

text \<open>The command-line flags.\<close>

record flags =
  verbflag :: bool
  buildflag :: bool
  numitflag :: int
  nodebugflag :: bool
  dryrunflag :: bool
  perflockflag :: bool
  preservetmpsflag :: bool

text \<open>
  Every fatal exit of the program (\<open>log.Fatal\<close>, \<open>log.Fatalf\<close>, a panic), with the values its
  diagnostic prints. A failed timed run is reported through the error that \<open>runCmd\<close>
  builds from the error and the output of the process.
\<close>

datatype error =
    OpenError string
  | ScanError string
  | Malformed int nat
  | BadGomaxp string string string
  | InvalidGomaxp string int
  | DuplicateTag string
  | NoContent
  | NoGoCmd string
  | ExecError string
  | TimedRunError string string
  | BadGitOutput string string
  | IndexPanic

text \<open>A fatal exit keeps the state reached when the process ends.\<close>

type_synonym result = "(error \<times> state) + state"

definition fatal :: "error \<Rightarrow> state \<Rightarrow> (error \<times> state) + 'a" where
  "fatal e s = Inl (e, s)"

definition eprint :: "string \<Rightarrow> state \<Rightarrow> state" where
  "eprint txt s = s\<lparr>stderr := stderr s @ txt\<rparr>"

definition fwrite :: "handle \<Rightarrow> string \<Rightarrow> state \<Rightarrow> state" where
  "fwrite h txt s =
     (case h of
        Stderr \<Rightarrow> eprint txt s
      | OpenFile fn \<Rightarrow>
          s\<lparr>files := (files s)(fn \<mapsto> (case files s fn of None \<Rightarrow> txt | Some old \<Rightarrow> old @ txt))\<rparr>)"

text \<open>\<open>os.OpenFile(fn, O_WRONLY|O_CREATE|O_TRUNC, 0666)\<close>: the file exists and is empty.\<close>

definition create_trunc :: "world \<Rightarrow> string \<Rightarrow> state \<Rightarrow> result" where
  "create_trunc w fn s =
     (if can_create w fn then Inr (s\<lparr>files := (files s)(fn \<mapsto> [])\<rparr>) else fatal (OpenError fn) s)"

text \<open>\<open>cmd.CombinedOutput()\<close>: the process is launched and the world gives its outcome.\<close>

definition CombinedOutput :: "world \<Rightarrow> cmd \<Rightarrow> state \<Rightarrow> ((string \<times> string) + string) \<times> state" where
  "CombinedOutput w c s = (run w (length (procs s)) c, s\<lparr>procs := procs s @ [c]\<rparr>)"

text \<open>\<open>time.Now()\<close>.\<close>

definition now :: "world \<Rightarrow> state \<Rightarrow> int \<times> state" where
  "now w s = (clock w (ticks s), s\<lparr>ticks := Suc (ticks s)\<rparr>)"

section \<open>The process runner: \<open>runCmd\<close>\<close>

definition record_line :: "string \<Rightarrow> int \<Rightarrow> string" where
  "record_line name took = name @ '' 1 '' @ sprintf_d took @ '' ns/op'' @ [NL]"

definition runCmd :: "world \<Rightarrow> flags \<Rightarrow> string \<Rightarrow> cmd \<Rightarrow> handle \<Rightarrow> state \<Rightarrow> result" where
  "runCmd w fl name c outf s =
     (let (start, s) = now w s in
      case (if dryrunflag fl then Inr (eprint (''... executing timing run'' @ [NL]) s)
            else (case CombinedOutput w c s of
                    (Inl (err, out), s) \<Rightarrow> Inl (TimedRunError err out, s)
                  | (Inr out, s) \<Rightarrow>
                      Inr (if verbflag fl then eprint (''... output: '' @ out @ [NL]) s else s)))
      of Inl e \<Rightarrow> Inl e
       | Inr s \<Rightarrow>
           (let (fin, s) = now w s;
                took = fin - start;
                s = (if verbflag fl
                     then eprint (''... timing run took '' @ sprintf_d took @ '' ns'' @ [NL]) s
                     else s)
            in Inr (fwrite outf (record_line name took) s)))"

section \<open>The environment overlay: \<open>addGoMaxProcsEnv\<close>\<close>

fun env_loop :: "string list \<Rightarrow> string list \<Rightarrow> string list" where
  "env_loop [] rv = rv"
| "env_loop (v # rest) rv =
     (if has_prefix v ''GOMAXPROCS='' then env_loop rest rv else env_loop rest (rv @ [v]))"

definition addGoMaxProcsEnv :: "world \<Rightarrow> string list \<Rightarrow> int \<Rightarrow> string list" where
  "addGoMaxProcsEnv w env0 gomaxp =
     (let rv = [];
          env1 = (if length env0 = 0 then environ w else env0);
          rv = env_loop env1 rv
      in rv @ [''GOMAXPROCS='' @ sprintf_d gomaxp])"

section \<open>The configuration loader: \<open>readvariants\<close>\<close>

record variant =
  tag :: string
  goroot :: string
  extras :: string
  gomaxp :: int

text \<open>
  \<open>fmt.Sscanf(str, "%d", &n)\<close> of the Go library, as the loader uses it, with an \<open>int\<close>
  of 64 bits (the harness is written for linux/amd64): white space is skipped (a line feed is an error, a carriage return before a
  line feed is dropped), then an optional sign and at least one decimal digit are read;
  what follows the digits is left unread and is no error; the value has to fit 64 bits.
  \<open>Inl\<close> carries the text of the error: \<open>EOF\<close> when the input ends before a digit,
  the message of \<open>strconv.ParseInt\<close> when the value is out of range.
\<close>

fun skip_space :: "string \<Rightarrow> string + string" where
  "skip_space [] = Inr []"
| "skip_space (c # cs) =
     (let r = fst (DecodeRune (c # cs));
          rest = drop (snd (DecodeRune (c # cs)) - 1) cs
      in if r = 0x0D \<and> (case rest of [] \<Rightarrow> False | d # ds \<Rightarrow> d = NL) then skip_space rest
         else if r = 0x0A then Inl ''unexpected newline''
         else if IsSpace r then skip_space rest
         else Inr (c # cs))"

definition is_digit :: "char \<Rightarrow> bool" where
  "is_digit c = (c \<in> set ''0123456789'')"

definition digit_val :: "char \<Rightarrow> nat" where
  "digit_val c = of_char c - 48"

definition nat_of_digits :: "string \<Rightarrow> nat" where
  "nat_of_digits ds = foldl (\<lambda>a c. 10 * a + digit_val c) 0 ds"

definition sscanf_d :: "string \<Rightarrow> string + int" where
  "sscanf_d str =
     (case skip_space str of
        Inl e \<Rightarrow> Inl e
      | Inr [] \<Rightarrow> Inl ''EOF''
      | Inr (c # cs) \<Rightarrow>
          (let sgn = (if c = CHR ''+'' \<or> c = CHR ''-'' then [c] else []);
               r = (if sgn = [] then c # cs else cs);
               digs = takeWhile is_digit r;
               tok = sgn @ digs
           in if r = [] then Inl ''EOF''
              else if digs = [] then Inl ''expected integer''
              else (let n = (if sgn = ''-'' then - int (nat_of_digits digs)
                             else int (nat_of_digits digs))
                    in if n < - (2 ^ 63) \<or> 2 ^ 63 - 1 < n
                       then Inl (''strconv.ParseInt: parsing '' @ [DQ] @ tok @ [DQ]
                                 @ '': value out of range'')
                       else Inr n)))"

text \<open>
  The state of the scanning loop: the line counter, the two maps of the tags and roots seen
  so far, and the variants loaded so far.
\<close>

record scan_state =
  lineNum :: int
  tags :: "string \<rightharpoonup> bool"
  roots :: "string \<rightharpoonup> bool"
  variants :: "variant list"

type_synonym scan_result = "(error \<times> state) + (scan_state \<times> state)"

text \<open>The body of the scanning loop, for one line delivered by the scanner.\<close>

definition scan_line :: "string \<Rightarrow> scan_state \<Rightarrow> state \<Rightarrow> scan_result" where
  "scan_line line st s =
     (if length line = 0 then Inr (st, s)
      else if line ! 0 = CHR ''#'' then Inr (st\<lparr>lineNum := lineNum st + 1\<rparr>, s)
      else
        (let tokens = split_on (CHR '':'') line;
             n = length tokens
         in if n \<noteq> 2 \<and> n \<noteq> 3 \<and> n \<noteq> 4 then fatal (Malformed (lineNum st) n) s
            else
              (let extras' = (if n = 2 then [] else tokens ! 2);
                   gomaxps = (if n = 4 then tokens ! 3 else []);
                   tag' = tokens ! 0;
                   goroot' = tokens ! 1
               in case (if gomaxps \<noteq> []
                        then (case sscanf_d gomaxps of
                                Inl err \<Rightarrow> Inl (BadGomaxp tag' gomaxps err)
                              | Inr g \<Rightarrow> if g < 1 then Inl (InvalidGomaxp tag' g) else Inr g)
                        else Inr 0)
                  of Inl e \<Rightarrow> fatal e s
                   | Inr gomaxp' \<Rightarrow>
                       (let v = \<lparr>tag = tag', goroot = goroot', extras = extras', gomaxp = gomaxp'\<rparr>;
                            st = st\<lparr>variants := variants st @ [v]\<rparr>
                        in if tags st tag' \<noteq> None then fatal (DuplicateTag tag') s
                           else
                             (let st = st\<lparr>tags := (tags st)(tag' \<mapsto> True)\<rparr>;
                                  s = (if roots st goroot' \<noteq> None
                                       then eprint (''warning: goroot '' @ [SQ] @ goroot' @ [SQ]
                                              @ '' appears more than once in variants.txt'' @ [NL]) s
                                       else s);
                                  st = st\<lparr>roots := (roots st)(goroot' \<mapsto> True)\<rparr>
                              in Inr (st\<lparr>lineNum := lineNum st + 1\<rparr>, s))))))"

fun scan_loop :: "string list \<Rightarrow> scan_state \<Rightarrow> state \<Rightarrow> scan_result" where
  "scan_loop [] st s = Inr (st, s)"
| "scan_loop (line # rest) st s =
     (case scan_line line st s of Inl e \<Rightarrow> Inl e | Inr (st', s') \<Rightarrow> scan_loop rest st' s')"

text \<open>The sanity checks after loading: the \<open>go\<close> command of every variant can be opened.\<close>

fun sanity_loop :: "world \<Rightarrow> nat \<Rightarrow> variant list \<Rightarrow> state \<Rightarrow> result" where
  "sanity_loop w i [] s = Inr s"
| "sanity_loop w i (v # vs) s =
     (let gocmd = goroot v @ ''/bin/go''
      in if \<not> can_open w gocmd then fatal (NoGoCmd gocmd) s
         else sanity_loop w (Suc i) vs
                (eprint (''remark: variant '' @ sprintf_d (int i) @ '': tag='' @ tag v
                           @ '' goroot='' @ goroot v @ [NL]) s))"

definition scan_init :: scan_state where
  "scan_init = \<lparr>lineNum = 1, tags = Map.empty, roots = Map.empty, variants = []\<rparr>"

text \<open>
  The file reaches the loader through \<open>bufio.Scanner\<close>: the lines it delivers, without their
  end-of-line markers, and the error it stops with, if any (a line too long for its buffer),
  which the loader looks at after the loop.
\<close>

definition readvariants :: "world \<Rightarrow> state \<Rightarrow> (error \<times> state) + (variant list \<times> state)" where
  "readvariants w s =
     (case variants_txt w of
        Inl err \<Rightarrow> Inl (OpenError err, s)
      | Inr file \<Rightarrow>
          (case scan_loop (lines_of file) scan_init s of
             Inl e \<Rightarrow> Inl e
           | Inr (st, s) \<Rightarrow>
               (case scan_err file of
                  Some err \<Rightarrow> Inl (ScanError err, s)
                | None \<Rightarrow>
                    if length (variants st) < 1 then Inl (NoContent, s)
                    else
                      (let s = (if length (variants st) = 1
                                then eprint (''timevariants: warning: variants.txt file has only a single entry''
                                             @ [NL]) s
                                else s)
                       in case sanity_loop w 0 (variants st) s of
                            Inl e \<Rightarrow> Inl e
                          | Inr s \<Rightarrow> Inr (variants st, s)))))"

section \<open>The script generator\<close>

definition sh :: string where "sh = ''/bin/sh''"
definition prog :: string where "prog = ''kubelet''"
definition progpath :: string where "progpath = ''k8s.io/kubernetes/cmd/kubelet''"

text \<open>Successive writes to an open file.\<close>

fun write_all :: "handle \<Rightarrow> string list \<Rightarrow> state \<Rightarrow> state" where
  "write_all h [] s = s"
| "write_all h (t # ts) s = write_all h ts (fwrite h t s)"

definition clean_script_text :: "flags \<Rightarrow> string list" where
  "clean_script_text fl =
     [''#!/bin/sh'' @ [NL]]
     @ (if \<not> dryrunflag fl
        then [''rm -rf ./_output/local/go/bin/'' @ prog @ '' ./_output/local/bin/linux/amd64/'' @ prog @ [NL]]
        else [])"

definition emitCleanScript :: "world \<Rightarrow> flags \<Rightarrow> string \<Rightarrow> state \<Rightarrow> result" where
  "emitCleanScript w fl fn s =
     (case create_trunc w fn s of
        Inl e \<Rightarrow> Inl e
      | Inr s \<Rightarrow> Inr (write_all (OpenFile fn) (clean_script_text fl) s))"

definition script_text :: "flags \<Rightarrow> variant \<Rightarrow> string \<Rightarrow> string list" where
  "script_text fl v extra =
     [''#!/bin/sh'' @ [NL],
      ''HERE=`pwd`'' @ [NL],
      ''WARMUP='' @ [DQ] @ ''$1'' @ [DQ, NL],
      ''if [ '' @ [DQ] @ ''$WARMUP'' @ [DQ] @ '' = '' @ [DQ] @ ''warmup'' @ [DQ] @ '' ]; then'' @ [NL],
      ''  shift'' @ [NL],
      ''fi'' @ [NL],
      ''export INJECT='' @ [DQ] @ ''$*'' @ [DQ, NL],
      ''export GOCACHE=$HERE/_output/local/go/cache'' @ [NL],
      ''export GOPATH=$HERE/_output/local/go'' @ [NL],
      ''export PATH='' @ [DQ] @ goroot v @ ''/bin:${PATH}'' @ [DQ, NL]]
     @ (let plp = (if perflockflag fl then ''perflock '' else [])
        in if \<not> dryrunflag fl
           then (if \<not> buildflag fl
                 then [''if [ '' @ [DQ] @ ''$WARMUP'' @ [DQ] @ '' = '' @ [DQ] @ ''warmup'' @ [DQ]
                         @ '' ]; then'' @ [NL],
                       ''  go install -i '' @ progpath @ [NL],
                       ''fi'' @ [NL]]
                 else [])
                @ [''rm -f /tmp/'' @ prog @ ''.'' @ tag v @ [NL]]
                @ (if buildflag fl then [''go clean -cache'' @ [NL]] else [])
                @ [plp @ ''go build -o /tmp/'' @ prog @ ''.'' @ tag v @ '' '' @ extra @ '' ''
                     @ progpath @ [NL]]
           else [])"

definition emitScript :: "world \<Rightarrow> flags \<Rightarrow> string \<Rightarrow> variant \<Rightarrow> string \<Rightarrow> state \<Rightarrow> result" where
  "emitScript w fl fn v extra s =
     (case create_trunc w fn s of
        Inl e \<Rightarrow> Inl e
      | Inr s \<Rightarrow> Inr (write_all (OpenFile fn) (script_text fl v extra) s))"

section \<open>The revision resolver: \<open>grabVariantHash\<close>\<close>

definition grabVariantHash :: "world \<Rightarrow> variant \<Rightarrow> state \<Rightarrow> (error \<times> state) + (string \<times> state)" where
  "grabVariantHash w v s =
     (case CombinedOutput w (Command ''git'' [''-C'', goroot v, ''log'', ''-1'', ''--oneline'']) s of
        (Inl (e, out), s) \<Rightarrow> fatal (ExecError e) s
      | (Inr tagline, s) \<Rightarrow>
          (let chunks = split_on (CHR '' '') tagline
           in if length chunks = 0 \<or> chunks ! 0 = [] then fatal (BadGitOutput (goroot v) tagline) s
              else Inr (chunks ! 0, s)))"

section \<open>The orchestrator: \<open>doVariant\<close> and \<open>perform\<close>\<close>

text \<open>
  An untimed run: the process is launched; when it fails, the message (if any) goes to the
  diagnostic stream and the program ends.
\<close>

definition untimed :: "world \<Rightarrow> cmd \<Rightarrow> (string \<Rightarrow> string) \<Rightarrow> state \<Rightarrow> result" where
  "untimed w c msg s =
     (case CombinedOutput w c s of
        (Inl (e, out), s) \<Rightarrow> fatal (ExecError e) (eprint (msg out) s)
      | (Inr out, s) \<Rightarrow> Inr s)"

definition open_output :: "world \<Rightarrow> flags \<Rightarrow> string \<Rightarrow> state \<Rightarrow> (error \<times> state) + (handle \<times> state)" where
  "open_output w fl fn s =
     (if \<not> dryrunflag fl
      then (case create_trunc w fn s of Inl e \<Rightarrow> Inl e | Inr s \<Rightarrow> Inr (OpenFile fn, s))
      else Inr (Stderr, eprint (''dryrun: open '' @ fn @ '' for output'' @ [NL]) s))"

text \<open>The command of a timed run, with the environment overlay when the variant asks for it.\<close>

definition timed_cmd :: "world \<Rightarrow> variant \<Rightarrow> string list \<Rightarrow> cmd" where
  "timed_cmd w v arg =
     (let c = Command sh arg
      in if gomaxp v \<noteq> 0 then c\<lparr>env := addGoMaxProcsEnv w (env c) (gomaxp v)\<rparr> else c)"

text \<open>The body of the timing loop.\<close>

definition timed_iter ::
  "world \<Rightarrow> flags \<Rightarrow> string \<Rightarrow> variant \<Rightarrow> string list \<Rightarrow> string \<Rightarrow> handle \<Rightarrow> int \<Rightarrow> state \<Rightarrow> result" where
  "timed_iter w fl cleanScript v sargs bentag outf i s =
     (let s = (if verbflag fl
               then eprint (''... timing run '' @ sprintf_d i @ '' for variant '' @ tag v @ [NL]) s
               else s)
      in case untimed w (Command sh [cleanScript]) (\<lambda>out. []) s of
           Inl e \<Rightarrow> Inl e
         | Inr s \<Rightarrow>
             (let c = timed_cmd w v sargs;
                  s = (if verbflag fl
                       then eprint (''... kicking off timing run '' @ sh @ '' '' @ show_strs sargs @ [NL]) s
                       else s)
              in runCmd w fl bentag c outf s))"

function timing_loop ::
  "world \<Rightarrow> flags \<Rightarrow> string \<Rightarrow> variant \<Rightarrow> string list \<Rightarrow> string \<Rightarrow> handle \<Rightarrow> int \<Rightarrow> state \<Rightarrow> result" where
  "timing_loop w fl cleanScript v sargs bentag outf i s =
     (if i < numitflag fl
      then (case timed_iter w fl cleanScript v sargs bentag outf i s of
              Inl e \<Rightarrow> Inl e
            | Inr s' \<Rightarrow> timing_loop w fl cleanScript v sargs bentag outf (i + 1) s')
      else Inr s)"
  by pat_completeness auto
termination
  by (relation "measure (\<lambda>(w, fl, cleanScript, v, sargs, bentag, outf, i, s). nat (numitflag fl - i))") auto

declare timing_loop.simps [simp del]

text \<open>The body of the second loop, for the build without debug information.\<close>

definition nodebug_iter ::
  "world \<Rightarrow> flags \<Rightarrow> string \<Rightarrow> string \<Rightarrow> variant \<Rightarrow> string \<Rightarrow> handle \<Rightarrow> int \<Rightarrow> state \<Rightarrow> result" where
  "nodebug_iter w fl script cleanScript v bentag outf i s =
     (let s = (if verbflag fl
               then eprint (''... timing run '' @ sprintf_d i @ '' for nodebug variant '' @ tag v @ [NL]) s
               else s)
      in case untimed w (Command sh [cleanScript]) (\<lambda>out. []) s of
           Inl e \<Rightarrow> Inl e
         | Inr s \<Rightarrow>
             (let c = timed_cmd w v [script]
              in runCmd w fl (bentag @ ''-WithoutDebug'') c outf s))"

function nodebug_loop ::
  "world \<Rightarrow> flags \<Rightarrow> string \<Rightarrow> string \<Rightarrow> variant \<Rightarrow> string \<Rightarrow> handle \<Rightarrow> int \<Rightarrow> state \<Rightarrow> result" where
  "nodebug_loop w fl script cleanScript v bentag outf i s =
     (if i < numitflag fl
      then (case nodebug_iter w fl script cleanScript v bentag outf i s of
              Inl e \<Rightarrow> Inl e
            | Inr s' \<Rightarrow> nodebug_loop w fl script cleanScript v bentag outf (i + 1) s')
      else Inr s)"
  by pat_completeness auto
termination
  by (relation "measure (\<lambda>(w, fl, script, cleanScript, v, bentag, outf, i, s). nat (numitflag fl - i))") auto

declare nodebug_loop.simps [simp del]

definition output_name :: "variant \<Rightarrow> string \<Rightarrow> string" where
  "output_name v hash = ''out.'' @ tag v @ ''.'' @ hash @ ''.txt''"

definition bench_name :: "string \<Rightarrow> string" where
  "bench_name tg = ''Benchmark'' @ (ToUpper_byte (tg ! 0) @ drop 1 tg) @ ''Kubelet''"

text \<open>
  The phases of \<open>doVariant\<close> after the output is open, in the order of the source: the
  initial clean, the warm-up run (skipped when whole builds are timed), the priming run,
  the timing loop and the optional second loop. \<open>tg\<close> is the run tag (\<open>relink\<close> or
  \<open>rebuild\<close>); taking its first character panics when it is empty.
\<close>

definition initial_clean :: "world \<Rightarrow> flags \<Rightarrow> string \<Rightarrow> variant \<Rightarrow> state \<Rightarrow> result" where
  "initial_clean w fl cleanScript v s =
     (let s = (if verbflag fl
               then eprint (''... performing clean and/or warmup runs for variant '' @ tag v @ [NL]) s
               else s)
      in untimed w (Command sh [cleanScript])
           (\<lambda>out. ''initial clean for '' @ tag v @ '' failed: '' @ out @ [NL]) s)"

definition warmup_run ::
  "world \<Rightarrow> flags \<Rightarrow> string \<Rightarrow> variant \<Rightarrow> string \<Rightarrow> string list \<Rightarrow> state \<Rightarrow> result" where
  "warmup_run w fl script v tg arg s =
     (if \<not> buildflag fl
      then untimed w (Command sh ([script, ''warmup''] @ arg))
             (\<lambda>out. ''initial '' @ tg @ '' for '' @ tag v @ '' failed: '' @ out @ [NL]) s
      else Inr s)"

definition prime_run ::
  "world \<Rightarrow> flags \<Rightarrow> variant \<Rightarrow> string \<Rightarrow> string list \<Rightarrow> state \<Rightarrow> result" where
  "prime_run w fl v tg sargs s =
     (let s = (if verbflag fl
               then eprint (''... exe.Command args: '' @ show_strs sargs @ [NL]) s
               else s)
      in untimed w (Command sh sargs)
           (\<lambda>out. ''initial '' @ tg @ '' for '' @ tag v @ '' failed: '' @ out @ [NL]) s)"

definition nodebug_phase ::
  "world \<Rightarrow> flags \<Rightarrow> string \<Rightarrow> string \<Rightarrow> variant \<Rightarrow> string \<Rightarrow> handle \<Rightarrow> state \<Rightarrow> result" where
  "nodebug_phase w fl script cleanScript v bentag outf s =
     (if nodebugflag fl
      then (case emitScript w fl script v (''-ldflags='' @ [DQ] @ ''-s -w'' @ [DQ]) s of
              Inl e \<Rightarrow> Inl e
            | Inr s \<Rightarrow> nodebug_loop w fl script cleanScript v bentag outf 0 s)
      else Inr s)"

definition run_phases ::
  "world \<Rightarrow> flags \<Rightarrow> string \<Rightarrow> string \<Rightarrow> variant \<Rightarrow> string \<Rightarrow> handle \<Rightarrow> state \<Rightarrow> result" where
  "run_phases w fl script cleanScript v tg outf s =
     (let arg = Fields (extras v)
      in case initial_clean w fl cleanScript v s of
           Inl e \<Rightarrow> Inl e
         | Inr s \<Rightarrow>
             (case warmup_run w fl script v tg arg s of
                Inl e \<Rightarrow> Inl e
              | Inr s \<Rightarrow>
                  (let sargs = [script] @ arg
                   in case prime_run w fl v tg sargs s of
                        Inl e \<Rightarrow> Inl e
                      | Inr s \<Rightarrow>
                          if length tg = 0 then fatal IndexPanic s
                          else
                            (let bentag = bench_name tg
                             in case timing_loop w fl cleanScript v sargs bentag outf 0 s of
                                  Inl e \<Rightarrow> Inl e
                                | Inr s \<Rightarrow>
                                    nodebug_phase w fl script cleanScript v bentag outf s))))"

definition doVariant :: "world \<Rightarrow> flags \<Rightarrow> string \<Rightarrow> string \<Rightarrow> variant \<Rightarrow> string \<Rightarrow> state \<Rightarrow> result" where
  "doVariant w fl script cleanScript v tg s =
     (case emitScript w fl script v [] s of
        Inl e \<Rightarrow> Inl e
      | Inr s \<Rightarrow>
          (case grabVariantHash w v s of
             Inl e \<Rightarrow> Inl e
           | Inr (hash, s) \<Rightarrow>
               (case open_output w fl (output_name v hash) s of
                  Inl e \<Rightarrow> Inl e
                | Inr (outf, s) \<Rightarrow> run_phases w fl script cleanScript v tg outf s)))"

text \<open>A variant under \<open>%+v\<close>.\<close>

definition show_variant :: "variant \<Rightarrow> string" where
  "show_variant v =
     ''{tag:'' @ tag v @ '' goroot:'' @ goroot v @ '' extras:'' @ extras v
       @ '' gomaxp:'' @ sprintf_d (gomaxp v) @ ''}''"

fun variants_loop ::
  "world \<Rightarrow> flags \<Rightarrow> string \<Rightarrow> string \<Rightarrow> string \<Rightarrow> variant list \<Rightarrow> state \<Rightarrow> result" where
  "variants_loop w fl script cleanScript tg [] s = Inr s"
| "variants_loop w fl script cleanScript tg (v # vs) s =
     (let s = (if verbflag fl then eprint (''... starting variant: '' @ show_variant v @ [NL]) s else s)
      in case doVariant w fl script cleanScript v tg s of
           Inl e \<Rightarrow> Inl e
         | Inr s \<Rightarrow> variants_loop w fl script cleanScript tg vs s)"

text \<open>
  \<open>ioutil.TempFile\<close> creates an empty file under a name of its own choosing. The two
  deferred removals run, last first, when \<open>perform\<close> returns; a fatal exit skips them.
\<close>

definition remove_file :: "string \<Rightarrow> state \<Rightarrow> state" where
  "remove_file fn s = s\<lparr>files := (files s)(fn := None)\<rparr>"

definition perform :: "world \<Rightarrow> flags \<Rightarrow> variant list \<Rightarrow> state \<Rightarrow> result" where
  "perform w fl vs s =
     (case tempfile w ''clean'' of
        Inl err \<Rightarrow> fatal (OpenError err) s
      | Inr cleanScript \<Rightarrow>
          (let s = s\<lparr>files := (files s)(cleanScript \<mapsto> [])\<rparr>;
               s = (if preservetmpsflag fl
                    then eprint (''... preserving clean script '' @ cleanScript @ [NL]) s
                    else s)
           in case emitCleanScript w fl cleanScript s of
                Inl e \<Rightarrow> Inl e
              | Inr s \<Rightarrow>
                  (let tg = (if buildflag fl then ''rebuild'' else ''relink'')
                   in case tempfile w tg of
                        Inl err \<Rightarrow> fatal (OpenError err) s
                      | Inr script \<Rightarrow>
                          (let s = s\<lparr>files := (files s)(script \<mapsto> [])\<rparr>;
                               s = (if preservetmpsflag fl
                                    then eprint (''... preserving '' @ tg @ '' script '' @ script @ [NL]) s
                                    else s)
                           in case variants_loop w fl script cleanScript tg vs s of
                                Inl e \<Rightarrow> Inl e
                              | Inr s \<Rightarrow>
                                  Inr (if preservetmpsflag fl then s
                                       else remove_file cleanScript (remove_file script s))))))"

definition main :: "world \<Rightarrow> flags \<Rightarrow> state \<Rightarrow> result" where
  "main w fl s =
     (case readvariants w s of
        Inl e \<Rightarrow> Inl e
      | Inr (vs, s) \<Rightarrow> perform w fl vs s)"

section \<open>Notions used in the statements\<close>

text \<open>What a stream holds: the text of the diagnostic stream, or the contents of the file.\<close>

definition stream_text :: "handle \<Rightarrow> state \<Rightarrow> string" where
  "stream_text h s =
     (case h of
        Stderr \<Rightarrow> stderr s
      | OpenFile fn \<Rightarrow> (case files s fn of None \<Rightarrow> [] | Some t \<Rightarrow> t))"

text \<open>A line of the configuration file that is neither empty nor a comment.\<close>

definition is_data :: "string \<Rightarrow> bool" where
  "is_data line = (line \<noteq> [] \<and> line ! 0 \<noteq> CHR ''#'')"

definition line_tag :: "string \<Rightarrow> string" where
  "line_tag line = split_on (CHR '':'') line ! 0"

text \<open>
  What the loop body makes of one data line, as a function of the line alone: two, three or
  four fields separated by colons; the optional third field is the extra build arguments,
  the optional fourth the parallelism, accepted when it is empty (parallelism 0) or scans
  as an integer of at least 1. \<open>None\<close> when the loop body rejects the line. The lemmas
  \<open>scan_line_ok\<close> and \<open>scan_line_rejected\<close> relate it to \<open>scan_line\<close>.
\<close>

definition line_variant :: "string \<Rightarrow> variant option" where
  "line_variant line =
     (let tokens = split_on (CHR '':'') line; n = length tokens
      in if n = 2 then Some \<lparr>tag = tokens ! 0, goroot = tokens ! 1, extras = [], gomaxp = 0\<rparr>
         else if n = 3
         then Some \<lparr>tag = tokens ! 0, goroot = tokens ! 1, extras = tokens ! 2, gomaxp = 0\<rparr>
         else if n = 4
         then (if tokens ! 3 = []
               then Some \<lparr>tag = tokens ! 0, goroot = tokens ! 1, extras = tokens ! 2, gomaxp = 0\<rparr>
               else (case sscanf_d (tokens ! 3) of
                       Inl err \<Rightarrow> None
                     | Inr g \<Rightarrow>
                         if g < 1 then None
                         else Some \<lparr>tag = tokens ! 0, goroot = tokens ! 1, extras = tokens ! 2,
                                    gomaxp = g\<rparr>))
         else None)"

text \<open>The warnings and remarks that a successful load leaves on the diagnostic stream.\<close>

definition root_warning :: "string \<Rightarrow> string" where
  "root_warning r =
     ''warning: goroot '' @ [SQ] @ r @ [SQ] @ '' appears more than once in variants.txt'' @ [NL]"

fun root_warnings :: "string set \<Rightarrow> variant list \<Rightarrow> string" where
  "root_warnings seen [] = []"
| "root_warnings seen (v # vs) =
     (if goroot v \<in> seen then root_warning (goroot v) else [])
     @ root_warnings (insert (goroot v) seen) vs"

fun remarks :: "nat \<Rightarrow> variant list \<Rightarrow> string" where
  "remarks i [] = []"
| "remarks i (v # vs) =
     ''remark: variant '' @ sprintf_d (int i) @ '': tag='' @ tag v @ '' goroot='' @ goroot v @ [NL]
     @ remarks (Suc i) vs"

text \<open>Every process launched before the N-th succeeds.\<close>

definition ok_below :: "world \<Rightarrow> nat \<Rightarrow> bool" where
  "ok_below w N = (\<forall>n c. n < N \<longrightarrow> (\<exists>out. run w n c = Inr out))"

text \<open>
  The record lines of \<open>k\<close> successive timed runs under one benchmark name, the first of
  which reads the clock for the \<open>t\<close>-th time when it starts.
\<close>

fun record_lines :: "world \<Rightarrow> string \<Rightarrow> nat \<Rightarrow> nat \<Rightarrow> string" where
  "record_lines w name t 0 = []"
| "record_lines w name t (Suc k) =
     record_line name (clock w (Suc t) - clock w t) @ record_lines w name (t + 2) k"

definition git_cmd :: "variant \<Rightarrow> cmd" where
  "git_cmd v = Command ''git'' [''-C'', goroot v, ''log'', ''-1'', ''--oneline'']"

definition clean_cmd :: "string \<Rightarrow> cmd" where
  "clean_cmd cleanScript = Command sh [cleanScript]"

text \<open>The untimed runs of a variant after the revision is resolved: clean, warm-up, priming.\<close>

definition warm_cmds :: "flags \<Rightarrow> string \<Rightarrow> string \<Rightarrow> variant \<Rightarrow> cmd list" where
  "warm_cmds fl script cleanScript v =
     [clean_cmd cleanScript]
     @ (if buildflag fl then [] else [Command sh ([script, ''warmup''] @ Fields (extras v))])
     @ [Command sh (script # Fields (extras v))]"

definition nodebug_extra :: string where
  "nodebug_extra = ''-ldflags='' @ [DQ] @ ''-s -w'' @ [DQ]"

section \<open>Concrete runs\<close>

text \<open>
  A world in which every process succeeds, \<open>git\<close> names the revision \<open>abc123\<close>, and the
  clock at its n-th reading shows the square of n; a configuration file is put in with
  \<open>file_world\<close>, and \<open>failing_world N\<close> makes the N-th process fail.
\<close>

definition demo_world :: world where
  "demo_world =
     \<lparr>run = (\<lambda>n c. if cmd_name c = ''git'' then Inr (''abc123 top commit'' @ [NL]) else Inr ''ok''),
      clock = (\<lambda>n. int (n * n)),
      environ = [''HOME=/root'', ''GOMAXPROCS=2'', ''LANG=C''],
      can_open = (\<lambda>f. True),
      can_create = (\<lambda>f. True),
      tempfile = (\<lambda>p. Inr (''/tmp/'' @ p @ ''1'')),
      variants_txt = Inl ''open variants.txt: no such file or directory''\<rparr>"

definition file_world :: "string list \<Rightarrow> world" where
  "file_world ls = demo_world\<lparr>variants_txt := Inr \<lparr>lines_of = ls, scan_err = None\<rparr>\<rparr>"

definition failing_world :: "nat \<Rightarrow> world" where
  "failing_world N =
     demo_world\<lparr>run := (\<lambda>n c. if n = N then Inl (''exit status 1'', ''boom'') else run demo_world n c)\<rparr>"

definition demo_flags :: flags where
  "demo_flags =
     \<lparr>verbflag = False, buildflag = False, numitflag = 2, nodebugflag = True,
      dryrunflag = False, perflockflag = False, preservetmpsflag = False\<rparr>"

definition dry_flags :: flags where
  "dry_flags = demo_flags\<lparr>dryrunflag := True\<rparr>"

definition init_state :: state where
  "init_state = \<lparr>files = Map.empty, stderr = [], procs = [], ticks = 0\<rparr>"

definition demo_variant :: variant where
  "demo_variant = \<lparr>tag = ''master'', goroot = ''/ssd/go.master'', extras = ''-gcflags=-N -v'', gomaxp = 4\<rparr>"

definition nbsp_variant :: variant where
  "nbsp_variant =
     \<lparr>tag = ''nbsp'', goroot = ''/ssd/go.nbsp'', extras = ''-a'' @ [CHR 0xC2, CHR 0xA0] @ ''-b'',
      gomaxp = 0\<rparr>"

definition dev_variant :: variant where
  "dev_variant = \<lparr>tag = ''dev'', goroot = ''/ssd/go.dev'', extras = [], gomaxp = 0\<rparr>"

section \<open>Basic facts\<close>

lemmas fmt_simps = sprintf_d_def show_nat.simps digit_char_def

lemma eprint_nil [simp]: "eprint [] s = s"
  by (simp add: eprint_def)

lemma eprint_eprint [simp]: "eprint b (eprint a s) = eprint (a @ b) s"
  by (simp add: eprint_def)

lemma env_loop_filter:
  "env_loop xs rv = rv @ filter (\<lambda>v. \<not> has_prefix v ''GOMAXPROCS='') xs"
  by (induction xs arbitrary: rv) auto

text \<open>
  The library functions at inputs with white space beyond ASCII: a no-break space (U+00A0,
  the bytes \<open>C2 A0\<close>) and an em space (U+2003, the bytes \<open>E2 80 83\<close>) separate fields and
  are skipped before a number, while a byte \<open>A0\<close> on its own is no code point and no
  white space.
\<close>

lemma DecodeRune_examples:
  "DecodeRune ''a'' = (0x61, 1)"
  "DecodeRune [CHR 0xC2, CHR 0xA0, CHR ''4''] = (0xA0, 2)"
  "DecodeRune [CHR 0xE2, CHR 0x80, CHR 0x83] = (0x2003, 3)"
  "DecodeRune [CHR 0xE2, CHR 0x82, CHR 0xAC] = (0x20AC, 3)"
  "DecodeRune [CHR 0xF0, CHR 0x9F, CHR 0x98, CHR 0x80] = (0x1F600, 4)"
  "DecodeRune [CHR 0xA0, CHR ''4''] = (RuneError, 1)"
  "DecodeRune [CHR 0xC2] = (RuneError, 1)"
  "DecodeRune [CHR 0xC0, CHR 0x80] = (RuneError, 1)"
  "DecodeRune [CHR 0xED, CHR 0xA0, CHR 0x80] = (RuneError, 1)"
  by (simp_all add: byte_val_def RuneError_def)

lemma Fields_examples:
  "Fields ''  -gcflags=-N   -v '' = [''-gcflags=-N'', ''-v'']"
  "Fields (''-a'' @ [CHR 0xC2, CHR 0xA0] @ ''-b'') = [''-a'', ''-b'']"
  "Fields (''-a'' @ [CHR 0xE2, CHR 0x80, CHR 0x83] @ ''-b'') = [''-a'', ''-b'']"
  "Fields (''-a'' @ [CHR 0xA0] @ ''-b'') = [''-a'' @ [CHR 0xA0] @ ''-b'']"
  "Fields [] = []"
  by (simp_all add: Fields_def byte_val_def IsSpace_def RuneError_def Let_def)

lemma sscanf_d_examples:
  "sscanf_d ''4'' = Inr 4"
  "sscanf_d '' +42x'' = Inr 42"
  "sscanf_d ([CHR 0xC2, CHR 0xA0] @ ''4'') = Inr 4"
  "sscanf_d ([CHR 0xE2, CHR 0x80, CHR 0x83] @ ''-7 '') = Inr (- 7)"
  "sscanf_d ([CHR 0xA0] @ ''4'') = Inl ''expected integer''"
  "sscanf_d ''four'' = Inl ''expected integer''"
  "sscanf_d '' '' = Inl ''EOF''"
  "sscanf_d ''-'' = Inl ''EOF''"
  "sscanf_d [] = Inl ''EOF''"
  "sscanf_d ''9223372036854775807'' = Inr 9223372036854775807"
  "sscanf_d ''9223372036854775808''
     = Inl (''strconv.ParseInt: parsing '' @ [DQ] @ ''9223372036854775808'' @ [DQ]
            @ '': value out of range'')"
  by (simp_all add: sscanf_d_def byte_val_def IsSpace_def RuneError_def is_digit_def
      nat_of_digits_def digit_val_def Let_def)

lemma bench_name_examples:
  "bench_name ''relink'' = ''BenchmarkRelinkKubelet''"
  "bench_name ''rebuild'' = ''BenchmarkRebuildKubelet''"
  by (simp_all add: bench_name_def ToUpper_byte_def byte_val_def to_upper_def)

section \<open>The environment overlay\<close>

text \<open>
  Claim C6. For every base environment and every parallelism value \<open>p\<close>, the overlay returns
  the base (the ambient environment when the base is empty) without its entries for
  \<open>GOMAXPROCS\<close>, followed by the one entry \<open>GOMAXPROCS=p\<close>: the result has exactly one
  entry for the variable, and its other entries are those of the base, in the same order.
  The function builds a new list, so the base is not changed.
\<close>

theorem addGoMaxProcsEnv_overlay:
  "addGoMaxProcsEnv w env0 p =
     filter (\<lambda>v. \<not> has_prefix v ''GOMAXPROCS='') (if env0 = [] then environ w else env0)
       @ [''GOMAXPROCS='' @ sprintf_d p]
   \<and> filter (\<lambda>v. has_prefix v ''GOMAXPROCS='') (addGoMaxProcsEnv w env0 p)
       = [''GOMAXPROCS='' @ sprintf_d p]
   \<and> filter (\<lambda>v. \<not> has_prefix v ''GOMAXPROCS='') (addGoMaxProcsEnv w env0 p)
       = filter (\<lambda>v. \<not> has_prefix v ''GOMAXPROCS='') (if env0 = [] then environ w else env0)"
  by (simp add: addGoMaxProcsEnv_def env_loop_filter has_prefix_def)

theorem addGoMaxProcsEnv_overlay_witness:
  "addGoMaxProcsEnv demo_world [''A=1'', ''GOMAXPROCS=4'', ''B=2''] 8
     = [''A=1'', ''B=2'', ''GOMAXPROCS=8'']
   \<and> addGoMaxProcsEnv demo_world [] 8 = [''HOME=/root'', ''LANG=C'', ''GOMAXPROCS=8'']"
  using addGoMaxProcsEnv_overlay [of demo_world "[''A=1'', ''GOMAXPROCS=4'', ''B=2'']" 8]
    addGoMaxProcsEnv_overlay [of demo_world "[]" 8]
  by (simp add: has_prefix_def demo_world_def fmt_simps)

section \<open>The process runner\<close>

text \<open>
  Claim C7. A timed run that is not a dry run and whose process succeeds launches that one
  process, reads the clock twice and appends to the destination stream exactly one line,
  \<open>name 1 d ns/op\<close>, where \<open>d\<close> is the difference of the two clock readings; with
  verbose tracing two trace lines go to the diagnostic stream before it. No other file
  changes.
\<close>

theorem runCmd_appends_record:
  assumes "\<not> dryrunflag fl" and "run w (length (procs s)) c = Inr out"
  shows "let took = clock w (Suc (ticks s)) - clock w (ticks s);
             tr = (if verbflag fl
                   then ''... output: '' @ out @ [NL]
                        @ ''... timing run took '' @ sprintf_d took @ '' ns'' @ [NL]
                   else []);
             s' = fwrite outf (record_line name took)
                    (s\<lparr>stderr := stderr s @ tr, procs := procs s @ [c], ticks := ticks s + 2\<rparr>)
         in runCmd w fl name c outf s = Inr s'
            \<and> stream_text outf s'
                = stream_text outf s @ (if outf = Stderr then tr else [])
                  @ name @ '' 1 '' @ sprintf_d took @ '' ns/op'' @ [NL]
            \<and> (\<forall>fn. outf \<noteq> OpenFile fn \<longrightarrow> files s' fn = files s fn)"
  using assms
  by (cases outf)
    (auto simp: runCmd_def now_def CombinedOutput_def eprint_def fwrite_def stream_text_def
      record_line_def Let_def split: option.splits)

theorem runCmd_appends_record_witness:
  "\<not> dryrunflag demo_flags
   \<and> run demo_world (length (procs init_state)) (Command sh [''/tmp/relink1'']) = Inr ''ok''
   \<and> runCmd demo_world demo_flags ''BenchmarkFooKubelet'' (Command sh [''/tmp/relink1''])
        (OpenFile ''out.master.abc123.txt'') init_state
      = Inr (init_state\<lparr>files := [''out.master.abc123.txt'' \<mapsto> ''BenchmarkFooKubelet 1 1 ns/op'' @ [NL]],
                        procs := [Command sh [''/tmp/relink1'']], ticks := 2\<rparr>)"
  using runCmd_appends_record [of demo_flags demo_world init_state "Command sh [''/tmp/relink1'']"
      "''ok''" "OpenFile ''out.master.abc123.txt''" "''BenchmarkFooKubelet''"]
  by (simp add: demo_flags_def demo_world_def init_state_def Command_def sh_def fwrite_def
      record_line_def fmt_simps Let_def)

text \<open>
  Claim C1, as the code has it. In a dry run the process runner launches no process and
  writes the trace line \<open>... executing timing run\<close>, but it does not skip the timing: it
  reads the clock twice and writes the record line \<open>name 1 d ns/op\<close> to the destination
  stream it was given. In a dry run \<open>doVariant\<close> opens no output file and hands over the
  diagnostic stream as that destination.
\<close>

theorem runCmd_dryrun:
  assumes "dryrunflag fl"
  shows "let took = clock w (Suc (ticks s)) - clock w (ticks s);
             tr = ''... executing timing run'' @ [NL]
                  @ (if verbflag fl then ''... timing run took '' @ sprintf_d took @ '' ns'' @ [NL]
                     else []);
             s' = fwrite outf (record_line name took)
                    (s\<lparr>stderr := stderr s @ tr, ticks := ticks s + 2\<rparr>)
         in runCmd w fl name c outf s = Inr s'
            \<and> procs s' = procs s
            \<and> stream_text outf s'
                = stream_text outf s @ (if outf = Stderr then tr else [])
                  @ name @ '' 1 '' @ sprintf_d took @ '' ns/op'' @ [NL]
            \<and> open_output w fl fn s
                = Inr (Stderr, s\<lparr>stderr := stderr s @ ''dryrun: open '' @ fn @ '' for output'' @ [NL]\<rparr>)"
  using assms
  by (cases outf)
    (auto simp: runCmd_def now_def eprint_def fwrite_def stream_text_def open_output_def
      record_line_def Let_def split: option.splits)

theorem runCmd_dryrun_witness:
  "dryrunflag dry_flags
   \<and> runCmd demo_world dry_flags ''BenchmarkRelinkKubelet'' (Command sh [''/tmp/relink1'']) Stderr
        init_state
      = Inr (init_state\<lparr>stderr := ''... executing timing run'' @ [NL]
                                    @ ''BenchmarkRelinkKubelet 1 1 ns/op'' @ [NL],
                        ticks := 2\<rparr>)"
  using runCmd_dryrun [of dry_flags demo_world init_state Stderr "''BenchmarkRelinkKubelet''"
      "Command sh [''/tmp/relink1'']"]
  by (simp add: dry_flags_def demo_flags_def demo_world_def init_state_def fwrite_def
      eprint_def record_line_def fmt_simps Let_def)

text \<open>
  Claim C1, as stated, fails: in this dry run the clock is read twice and the destination
  stream receives a record line, be it the diagnostic stream (as \<open>doVariant\<close> passes it)
  or a file.
\<close>

theorem runCmd_dryrun_counterexample:
  "dryrunflag dry_flags
   \<and> \<not> isl (runCmd demo_world dry_flags ''BenchmarkRelinkKubelet'' (Command sh [''/tmp/relink1''])
              Stderr init_state)
   \<and> stream_text Stderr init_state = []
   \<and> stream_text Stderr
        (projr (runCmd demo_world dry_flags ''BenchmarkRelinkKubelet'' (Command sh [''/tmp/relink1''])
                  Stderr init_state))
      = ''... executing timing run'' @ [NL] @ ''BenchmarkRelinkKubelet 1 1 ns/op'' @ [NL]
   \<and> ticks init_state = 0
   \<and> ticks (projr (runCmd demo_world dry_flags ''BenchmarkRelinkKubelet'' (Command sh [''/tmp/relink1''])
                     Stderr init_state)) = 2
   \<and> stream_text (OpenFile ''out.txt'') init_state = []
   \<and> stream_text (OpenFile ''out.txt'')
        (projr (runCmd demo_world dry_flags ''BenchmarkRelinkKubelet'' (Command sh [''/tmp/relink1''])
                  (OpenFile ''out.txt'') init_state))
      = ''BenchmarkRelinkKubelet 1 1 ns/op'' @ [NL]"
  by (simp add: runCmd_def now_def eprint_def fwrite_def stream_text_def record_line_def
      dry_flags_def demo_flags_def demo_world_def init_state_def fmt_simps Let_def)

section \<open>The configuration loader\<close>

text \<open>
  Claim C2 does not hold of the code: an empty line leaves the line counter unchanged (a
  comment line advances it), so the malformed second line of a file whose first line is
  empty is reported as line 1, while after a comment line it is reported as line 2.
\<close>

theorem readvariants_blank_line_not_counted:
  "readvariants (file_world ['''', ''bad'']) init_state = Inl (Malformed 1 1, init_state)
   \<and> readvariants (file_world [''# comment'', ''bad'']) init_state = Inl (Malformed 2 1, init_state)"
  by (simp add: readvariants_def file_world_def demo_world_def scan_init_def scan_line_def fatal_def)

lemma scan_loop_append:
  "scan_loop (xs @ ys) st s =
     (case scan_loop xs st s of Inl e \<Rightarrow> Inl e | Inr (st', s') \<Rightarrow> scan_loop ys st' s')"
  by (induction xs arbitrary: st s) (auto split: sum.splits)

text \<open>
  In general the counter advances on every line that is not empty, and only on those: the
  number reported for a malformed line is one more than the number of non-empty lines
  before it.
\<close>

lemma scan_line_lineNum:
  "scan_line l st s = Inr (st', s') \<Longrightarrow> lineNum st' = lineNum st + (if l = [] then 0 else 1)"
  by (auto simp: scan_line_def Let_def fatal_def split: if_splits sum.splits)

lemma scan_loop_lineNum:
  "scan_loop ls st s = Inr (st', s') \<Longrightarrow>
     lineNum st' = lineNum st + int (length (filter (\<lambda>l. l \<noteq> []) ls))"
proof (induction ls arbitrary: st s)
  case Nil
  then show ?case by simp
next
  case (Cons l ls)
  from Cons.prems obtain st1 s1 where
    step: "scan_line l st s = Inr (st1, s1)" and rest: "scan_loop ls st1 s1 = Inr (st', s')"
    by (auto split: sum.splits)
  from scan_line_lineNum [OF step] Cons.IH [OF rest] show ?case by simp
qed

lemma malformed_line_number:
  assumes "scan_loop pre scan_init s = Inr (st, s1)" and "is_data l"
    and "length (split_on (CHR '':'') l) \<notin> {2, 3, 4}"
  shows "scan_loop (pre @ l # post) scan_init s
           = Inl (Malformed (1 + int (length (filter (\<lambda>l. l \<noteq> []) pre)))
                    (length (split_on (CHR '':'') l)), s1)"
proof -
  from scan_loop_lineNum [OF assms(1)]
  have n: "lineNum st = 1 + int (length (filter (\<lambda>l. l \<noteq> []) pre))"
    by (simp add: scan_init_def)
  have "scan_line l st s1 = Inl (Malformed (lineNum st) (length (split_on (CHR '':'') l)), s1)"
    using assms(2,3) by (simp add: scan_line_def is_data_def Let_def fatal_def)
  with assms(1) n show ?thesis by (simp add: scan_loop_append)
qed

lemma line_variant_tag: "line_variant l = Some v \<Longrightarrow> tag v = line_tag l"
  by (auto simp: line_variant_def line_tag_def Let_def split: if_splits sum.splits)

lemma scan_line_skip: "\<not> is_data l \<Longrightarrow> \<exists>st'. scan_line l st s = Inr (st', s) \<and> tags st' = tags st \<and> roots st' = roots st \<and> variants st' = variants st"
  by (auto simp: scan_line_def is_data_def)

lemma scan_line_ok:
  assumes "is_data l" and "line_variant l = Some v" and "tags st (tag v) = None"
  shows "scan_line l st s =
           Inr (st\<lparr>lineNum := lineNum st + 1, tags := (tags st)(tag v \<mapsto> True),
                   roots := (roots st)(goroot v \<mapsto> True), variants := variants st @ [v]\<rparr>,
                eprint (if roots st (goroot v) \<noteq> None then root_warning (goroot v) else []) s)"
  using assms
  by (auto simp: scan_line_def is_data_def line_variant_def Let_def root_warning_def fatal_def
      split: if_splits sum.splits)

lemma scan_line_rejected:
  assumes "is_data l" and "line_variant l = None"
  shows "isl (scan_line l st s)"
  using assms
  by (auto simp: scan_line_def is_data_def line_variant_def Let_def fatal_def
      split: if_splits sum.splits)

lemma scan_line_dup:
  assumes "is_data l" and "tags st (line_tag l) \<noteq> None"
  shows "isl (scan_line l st s)"
  using assms
  by (auto simp: scan_line_def is_data_def line_tag_def Let_def fatal_def
      split: if_splits sum.splits)

lemma scan_line_tags_mono:
  assumes "scan_line l st s = Inr (st', s')" and "tags st t \<noteq> None"
  shows "tags st' t \<noteq> None"
  using assms
  by (auto simp: scan_line_def Let_def fatal_def split: if_splits sum.splits)

lemma scan_line_tag_recorded:
  assumes "scan_line l st s = Inr (st', s')" and "is_data l"
  shows "tags st' (line_tag l) \<noteq> None"
  using assms
  by (auto simp: scan_line_def is_data_def line_tag_def Let_def fatal_def split: if_splits sum.splits)

lemma scan_loop_tags_mono:
  "scan_loop ls st s = Inr (st', s') \<Longrightarrow> tags st t \<noteq> None \<Longrightarrow> tags st' t \<noteq> None"
proof (induction ls arbitrary: st s)
  case Nil
  then show ?case by simp
next
  case (Cons l ls)
  from Cons.prems(1) obtain st1 s1 where
    step: "scan_line l st s = Inr (st1, s1)" and rest: "scan_loop ls st1 s1 = Inr (st', s')"
    by (auto split: sum.splits)
  from scan_line_tags_mono [OF step Cons.prems(2)] have "tags st1 t \<noteq> None" .
  with Cons.IH [OF rest] show ?case .
qed

lemma scan_loop_dup_tag:
  assumes "is_data l1" and "is_data l2" and "line_tag l1 = line_tag l2"
  shows "isl (scan_loop (pre @ l1 # mid @ l2 # post) st s)"
proof (cases "scan_loop pre st s")
  case (Inl e)
  then show ?thesis by (simp add: scan_loop_append)
next
  case (Inr p1)
  obtain st1 s1 where p1: "p1 = (st1, s1)" by (cases p1)
  show ?thesis
  proof (cases "scan_line l1 st1 s1")
    case (Inl e)
    with Inr p1 show ?thesis by (simp add: scan_loop_append)
  next
    case (Inr p2)
    note r2 = this
    obtain st2 s2 where p2: "p2 = (st2, s2)" by (cases p2)
    from scan_line_tag_recorded [OF r2 [unfolded p2] assms(1)]
    have t2: "tags st2 (line_tag l2) \<noteq> None" using assms(3) by simp
    show ?thesis
    proof (cases "scan_loop mid st2 s2")
      case (Inl e)
      with \<open>scan_loop pre st s = Inr p1\<close> p1 r2 p2 show ?thesis
        by (simp add: scan_loop_append)
    next
      case (Inr p3)
      obtain st3 s3 where p3: "p3 = (st3, s3)" by (cases p3)
      from scan_loop_tags_mono [OF Inr [unfolded p3] t2]
      have "tags st3 (line_tag l2) \<noteq> None" .
      from scan_line_dup [OF assms(2) this, of s3] obtain e where "scan_line l2 st3 s3 = Inl e"
        by (cases "scan_line l2 st3 s3") auto
      with \<open>scan_loop pre st s = Inr p1\<close> p1 r2 p2 Inr p3 show ?thesis
        by (simp add: scan_loop_append)
    qed
  qed
qed


lemma scan_line_dup_exact:
  assumes "is_data l" and "line_variant l = Some v" and "tags st (tag v) \<noteq> None"
  shows "scan_line l st s = Inl (DuplicateTag (tag v), s)"
  using assms
  by (auto simp: scan_line_def is_data_def line_variant_def Let_def fatal_def
      split: if_splits sum.splits)

lemma scan_loop_ok:
  assumes "map line_variant (filter is_data ls) = map Some vs"
    and "distinct (map tag vs)"
    and "\<forall>v\<in>set vs. tags st (tag v) = None"
  shows "\<exists>st'. scan_loop ls st s = Inr (st', eprint (root_warnings (dom (roots st)) vs) s)
           \<and> variants st' = variants st @ vs"
  using assms
proof (induction ls arbitrary: st s vs)
  case Nil
  then show ?case by simp
next
  case (Cons l ls)
  show ?case
  proof (cases "is_data l")
    case False
    from scan_line_skip [OF False, of st s] obtain st1 where
      st1: "scan_line l st s = Inr (st1, s)" "tags st1 = tags st" "roots st1 = roots st"
        "variants st1 = variants st"
      by blast
    from Cons.prems False have "map line_variant (filter is_data ls) = map Some vs" by simp
    from Cons.IH [OF this Cons.prems(2), of st1 s] Cons.prems(3) st1
    show ?thesis by auto
  next
    case True
    with Cons.prems(1) obtain v vs' where
      vs: "vs = v # vs'" and lv: "line_variant l = Some v"
      and rest: "map line_variant (filter is_data ls) = map Some vs'"
      by (cases vs) auto
    from Cons.prems(3) vs have fresh: "tags st (tag v) = None" by simp
    define st1 where "st1 = st\<lparr>lineNum := lineNum st + 1, tags := (tags st)(tag v \<mapsto> True),
                   roots := (roots st)(goroot v \<mapsto> True), variants := variants st @ [v]\<rparr>"
    define s1 where "s1 = eprint (if roots st (goroot v) \<noteq> None then root_warning (goroot v) else []) s"
    have step: "scan_line l st s = Inr (st1, s1)"
      unfolding st1_def s1_def by (rule scan_line_ok [OF True lv fresh])
    from Cons.prems(2) vs have d': "distinct (map tag vs')" by simp
    have f': "\<forall>u\<in>set vs'. tags st1 (tag u) = None"
    proof
      fix u assume u: "u \<in> set vs'"
      then have "tag u \<in> tag ` set vs'" by (rule imageI)
      moreover from Cons.prems(2) vs have "tag v \<notin> tag ` set vs'" by simp
      ultimately have "tag u \<noteq> tag v" by metis
      moreover from Cons.prems(3) vs u have "tags st (tag u) = None" by simp
      ultimately show "tags st1 (tag u) = None" by (simp add: st1_def)
    qed
    from Cons.IH [OF rest d' f', of s1] obtain st' where
      r: "scan_loop ls st1 s1 = Inr (st', eprint (root_warnings (dom (roots st1)) vs') s1)"
      and v': "variants st' = variants st1 @ vs'"
      by blast
    have dr: "dom (roots st1) = insert (goroot v) (dom (roots st))"
      by (simp add: st1_def)
    have "eprint (root_warnings (dom (roots st1)) vs') s1 = eprint (root_warnings (dom (roots st)) vs) s"
      by (cases "roots st (goroot v)") (simp_all add: dr vs s1_def domIff)
    with step r v' show ?thesis
      by (simp add: st1_def vs)
  qed
qed

lemma sanity_loop_ok:
  "\<forall>v\<in>set vs. can_open w (goroot v @ ''/bin/go'') \<Longrightarrow>
     sanity_loop w i vs s = Inr (eprint (remarks i vs) s)"
  by (induction vs arbitrary: i s) (simp_all add: Let_def)

lemma root_warnings_has:
  assumes "j < length vs"
    and "goroot (vs ! j) \<in> seen \<or> (\<exists>i<j. goroot (vs ! i) = goroot (vs ! j))"
  shows "\<exists>a b. root_warnings seen vs = a @ root_warning (goroot (vs ! j)) @ b"
  using assms
proof (induction vs arbitrary: seen j)
  case Nil
  then show ?case by simp
next
  case (Cons v vs)
  show ?case
  proof (cases j)
    case 0
    with Cons.prems(2) have "goroot v \<in> seen" by simp
    with 0 show ?thesis by auto
  next
    case (Suc j')
    with Cons.prems(1) have lt: "j' < length vs" by simp
    have "goroot (vs ! j') \<in> insert (goroot v) seen \<or> (\<exists>i<j'. goroot (vs ! i) = goroot (vs ! j'))"
    proof -
      from Cons.prems(2) Suc consider "goroot (vs ! j') \<in> seen"
        | i where "i < Suc j'" "goroot ((v # vs) ! i) = goroot (vs ! j')"
        by auto
      then show ?thesis
      proof cases
        case 1
        then show ?thesis by simp
      next
        case 2
        then show ?thesis by (cases i) auto
      qed
    qed
    from Cons.IH [OF lt this] obtain a b where
      "root_warnings (insert (goroot v) seen) vs = a @ root_warning (goroot (vs ! j')) @ b"
      by blast
    then have "root_warnings seen (v # vs)
        = ((if goroot v \<in> seen then root_warning (goroot v) else []) @ a)
          @ root_warning (goroot ((v # vs) ! j)) @ b"
      using Suc by simp
    then show ?thesis by blast
  qed
qed

lemma readvariants_ok:
  assumes "variants_txt w = Inr file" and "scan_err file = None"
    and "map line_variant (filter is_data (lines_of file)) = map Some vs"
    and "distinct (map tag vs)" and "vs \<noteq> []"
    and "\<forall>v\<in>set vs. can_open w (goroot v @ ''/bin/go'')"
  shows "readvariants w s =
           Inr (vs, eprint (root_warnings {} vs
                            @ (if length vs = 1
                               then ''timevariants: warning: variants.txt file has only a single entry'' @ [NL]
                               else [])
                            @ remarks 0 vs) s)"
proof -
  from scan_loop_ok [OF assms(3,4), of scan_init s] obtain st' where
    r: "scan_loop (lines_of file) scan_init s = Inr (st', eprint (root_warnings {} vs) s)"
    and v: "variants st' = vs"
    by (auto simp: scan_init_def)
  from assms(5) have "\<not> length vs < 1" by (cases vs) auto
  with r v assms(1,2) sanity_loop_ok [OF assms(6)] show ?thesis
    by (simp add: readvariants_def Let_def)
qed

lemma readvariants_scan_fails:
  assumes "variants_txt w = Inr file" and "scan_loop (lines_of file) scan_init s = Inl e"
  shows "readvariants w s = Inl e"
  using assms by (simp add: readvariants_def)

lemmas scan_eval = sscanf_d_def byte_val_def IsSpace_def is_digit_def nat_of_digits_def digit_val_def

text \<open>
  Claim C8. When two data lines of the file carry the same tag the loader ends fatally, and
  with the diagnostic for the duplicate tag when the lines up to the second one load and the
  second one parses. When every data line parses, the tags are distinct, the scanner reports
  no error and every \<open>go\<close> command can be opened, the loader returns the variants of all
  the data lines in file order, whether or not roots repeat, and for every variant whose
  root already occurred the diagnostic stream holds the warning for that root.
\<close>

theorem readvariants_duplicates:
  assumes "variants_txt w = Inr file"
  shows "(\<forall>pre l1 mid l2 post.
            lines_of file = pre @ l1 # mid @ l2 # post \<and> is_data l1 \<and> is_data l2
            \<and> line_tag l1 = line_tag l2
            \<longrightarrow> isl (readvariants w s)
                \<and> (\<forall>st s1. scan_loop (pre @ l1 # mid) scan_init s = Inr (st, s1)
                            \<and> line_variant l2 \<noteq> None
                            \<longrightarrow> readvariants w s = Inl (DuplicateTag (line_tag l2), s1)))
       \<and> (scan_err file = None
          \<and> map line_variant (filter is_data (lines_of file)) = map Some vs
          \<and> distinct (map tag vs) \<and> vs \<noteq> []
          \<and> (\<forall>v\<in>set vs. can_open w (goroot v @ ''/bin/go''))
          \<longrightarrow> (\<exists>s'. readvariants w s = Inr (vs, s')
                \<and> (\<forall>i j. i < j \<and> j < length vs \<and> goroot (vs ! i) = goroot (vs ! j)
                      \<longrightarrow> (\<exists>a b. stderr s' = stderr s @ a @ root_warning (goroot (vs ! j)) @ b))))"
proof (intro conjI allI impI)
  fix pre l1 mid l2 post
  assume h: "lines_of file = pre @ l1 # mid @ l2 # post \<and> is_data l1 \<and> is_data l2
            \<and> line_tag l1 = line_tag l2"
  then have "isl (scan_loop (lines_of file) scan_init s)"
    using scan_loop_dup_tag [of l1 l2 pre mid post scan_init s] by simp
  then obtain e where "scan_loop (lines_of file) scan_init s = Inl e"
    by (cases "scan_loop (lines_of file) scan_init s") auto
  from readvariants_scan_fails [OF assms this] show "isl (readvariants w s)" by simp
next
  fix pre l1 mid l2 post st s1
  assume h: "lines_of file = pre @ l1 # mid @ l2 # post \<and> is_data l1 \<and> is_data l2
            \<and> line_tag l1 = line_tag l2"
    and r: "scan_loop (pre @ l1 # mid) scan_init s = Inr (st, s1) \<and> line_variant l2 \<noteq> None"
  from r obtain v where v: "line_variant l2 = Some v" by auto
  from r obtain st0 s0 st1 s1' where
    a: "scan_loop pre scan_init s = Inr (st0, s0)" and b: "scan_line l1 st0 s0 = Inr (st1, s1')"
    and c: "scan_loop mid st1 s1' = Inr (st, s1)"
    by (auto simp: scan_loop_append split: sum.splits)
  from scan_line_tag_recorded [OF b] h have "tags st1 (line_tag l2) \<noteq> None" by simp
  from scan_loop_tags_mono [OF c this] have "tags st (tag v) \<noteq> None"
    by (simp add: line_variant_tag [OF v])
  from scan_line_dup_exact [OF _ v this, of s1] h
  have "scan_line l2 st s1 = Inl (DuplicateTag (line_tag l2), s1)"
    by (simp add: line_variant_tag [OF v])
  with r h have "scan_loop (lines_of file) scan_init s = Inl (DuplicateTag (line_tag l2), s1)"
    using scan_loop_append [of "pre @ l1 # mid" "l2 # post" scan_init s] by simp
  from readvariants_scan_fails [OF assms this]
  show "readvariants w s = Inl (DuplicateTag (line_tag l2), s1)" .
next
  assume h: "scan_err file = None
          \<and> map line_variant (filter is_data (lines_of file)) = map Some vs
          \<and> distinct (map tag vs) \<and> vs \<noteq> []
          \<and> (\<forall>v\<in>set vs. can_open w (goroot v @ ''/bin/go''))"
  define tail where "tail = (if length vs = 1
       then ''timevariants: warning: variants.txt file has only a single entry'' @ [NL] else [])
       @ remarks 0 vs"
  from h have ok: "readvariants w s = Inr (vs, eprint (root_warnings {} vs @ tail) s)"
    using readvariants_ok [OF assms, of vs s] by (simp add: tail_def)
  have "\<forall>i j. i < j \<and> j < length vs \<and> goroot (vs ! i) = goroot (vs ! j)
          \<longrightarrow> (\<exists>a b. stderr (eprint (root_warnings {} vs @ tail) s)
                        = stderr s @ a @ root_warning (goroot (vs ! j)) @ b)"
  proof (intro allI impI)
    fix i j assume ij: "i < j \<and> j < length vs \<and> goroot (vs ! i) = goroot (vs ! j)"
    then have "\<exists>a b. root_warnings {} vs = a @ root_warning (goroot (vs ! j)) @ b"
      by (intro root_warnings_has) auto
    then obtain a b where "root_warnings {} vs = a @ root_warning (goroot (vs ! j)) @ b" by blast
    then have "stderr (eprint (root_warnings {} vs @ tail) s)
                 = stderr s @ a @ root_warning (goroot (vs ! j)) @ (b @ tail)"
      by (simp add: eprint_def)
    then show "\<exists>a b. stderr (eprint (root_warnings {} vs @ tail) s)
                        = stderr s @ a @ root_warning (goroot (vs ! j)) @ b"
      by blast
  qed
  with ok show "\<exists>s'. readvariants w s = Inr (vs, s')
                \<and> (\<forall>i j. i < j \<and> j < length vs \<and> goroot (vs ! i) = goroot (vs ! j)
                      \<longrightarrow> (\<exists>a b. stderr s' = stderr s @ a @ root_warning (goroot (vs ! j)) @ b))"
    by blast
qed

theorem readvariants_duplicates_witness:
  "isl (readvariants (file_world [''a:/x'', ''a:/y'']) init_state)
   \<and> readvariants (file_world [''a:/x'', ''a:/y'']) init_state = Inl (DuplicateTag ''a'', init_state)
   \<and> (\<exists>s'. readvariants
              (file_world [''# toolchains'', [], ''master:/ssd/go.master'',
                           ''dev:/ssd/go.master:-gcflags=-N:4''])
              init_state
            = Inr ([\<lparr>tag = ''master'', goroot = ''/ssd/go.master'', extras = [], gomaxp = 0\<rparr>,
                    \<lparr>tag = ''dev'', goroot = ''/ssd/go.master'', extras = ''-gcflags=-N'', gomaxp = 4\<rparr>],
                   s')
            \<and> (\<exists>a b. stderr s' = stderr init_state @ a @ root_warning ''/ssd/go.master'' @ b))"
proof -
  have f1: "variants_txt (file_world [''a:/x'', ''a:/y''])
              = Inr \<lparr>lines_of = [''a:/x'', ''a:/y''], scan_err = None\<rparr>"
    by (simp add: file_world_def)
  have h1: "lines_of \<lparr>lines_of = [''a:/x'', ''a:/y''], scan_err = None\<rparr> = [] @ ''a:/x'' # [] @ ''a:/y'' # []
            \<and> is_data ''a:/x'' \<and> is_data ''a:/y'' \<and> line_tag ''a:/x'' = line_tag ''a:/y''"
    by (simp add: is_data_def line_tag_def)
  note d = readvariants_duplicates [OF f1, of init_state "[]", THEN conjunct1, rule_format, OF h1]
  have r1: "scan_loop ([] @ ''a:/x'' # []) scan_init init_state
              = Inr (scan_init\<lparr>lineNum := 2, tags := [''a'' \<mapsto> True], roots := [''/x'' \<mapsto> True],
                               variants := [\<lparr>tag = ''a'', goroot = ''/x'', extras = [], gomaxp = 0\<rparr>]\<rparr>,
                     init_state)
            \<and> line_variant ''a:/y'' \<noteq> None"
    by (simp add: scan_line_def scan_init_def line_variant_def Let_def)
  from d [THEN conjunct2, rule_format, OF r1]
  have c2: "readvariants (file_world [''a:/x'', ''a:/y'']) init_state = Inl (DuplicateTag ''a'', init_state)"
    by (simp add: line_tag_def)
  have f2: "variants_txt (file_world [''# toolchains'', [], ''master:/ssd/go.master'',
                           ''dev:/ssd/go.master:-gcflags=-N:4''])
              = Inr \<lparr>lines_of = [''# toolchains'', [], ''master:/ssd/go.master'',
                           ''dev:/ssd/go.master:-gcflags=-N:4''], scan_err = None\<rparr>"
    by (simp add: file_world_def)
  let ?vs = "[\<lparr>tag = ''master'', goroot = ''/ssd/go.master'', extras = [], gomaxp = 0\<rparr>,
              \<lparr>tag = ''dev'', goroot = ''/ssd/go.master'', extras = ''-gcflags=-N'', gomaxp = 4\<rparr>]"
  have h2: "scan_err \<lparr>lines_of = [''# toolchains'', [], ''master:/ssd/go.master'',
                           ''dev:/ssd/go.master:-gcflags=-N:4''], scan_err = None\<rparr> = None
          \<and> map line_variant (filter is_data (lines_of \<lparr>lines_of = [''# toolchains'', [], ''master:/ssd/go.master'',
                           ''dev:/ssd/go.master:-gcflags=-N:4''], scan_err = None\<rparr>)) = map Some ?vs
          \<and> distinct (map tag ?vs) \<and> ?vs \<noteq> []
          \<and> (\<forall>v\<in>set ?vs. can_open (file_world [''# toolchains'', [], ''master:/ssd/go.master'',
                           ''dev:/ssd/go.master:-gcflags=-N:4'']) (goroot v @ ''/bin/go''))"
    by (simp add: is_data_def line_variant_def Let_def scan_eval file_world_def demo_world_def)
  from readvariants_duplicates [OF f2, of init_state ?vs, THEN conjunct2, rule_format, OF h2]
  obtain s' where s': "readvariants (file_world [''# toolchains'', [], ''master:/ssd/go.master'',
                           ''dev:/ssd/go.master:-gcflags=-N:4'']) init_state = Inr (?vs, s')"
    and wn: "\<forall>i j. i < j \<and> j < length ?vs \<and> goroot (?vs ! i) = goroot (?vs ! j)
                      \<longrightarrow> (\<exists>a b. stderr s' = stderr init_state @ a @ root_warning (goroot (?vs ! j)) @ b)"
    by blast
  from wn [rule_format, of 0 1]
  have "\<exists>a b. stderr s' = stderr init_state @ a @ root_warning ''/ssd/go.master'' @ b"
    by simp
  with d [THEN conjunct1] c2 s' show ?thesis by blast
qed




section \<open>The orchestrator\<close>

lemma write_all_file:
  "files s fn = Some old \<Longrightarrow>
     write_all (OpenFile fn) ts s = s\<lparr>files := (files s)(fn \<mapsto> old @ concat ts)\<rparr>"
proof (induction ts arbitrary: s old)
  case Nil
  then show ?case by (simp add: fun_upd_idem)
next
  case (Cons t ts)
  have "files (fwrite (OpenFile fn) t s) fn = Some (old @ t)"
    using Cons.prems by (simp add: fwrite_def)
  from Cons.IH [OF this] Cons.prems show ?case
    by (cases s) (auto simp: fwrite_def fun_eq_iff)
qed

lemma emitScript_ok:
  "can_create w fn \<Longrightarrow>
     emitScript w fl fn v extra s = Inr (s\<lparr>files := (files s)(fn \<mapsto> concat (script_text fl v extra))\<rparr>)"
  using write_all_file [of "s\<lparr>files := (files s)(fn \<mapsto> [])\<rparr>" fn "[]" "script_text fl v extra"]
  by (simp add: emitScript_def create_trunc_def)

lemma untimed_ok:
  assumes "ok_below w N" and "length (procs s) < N"
  shows "untimed w c msg s = Inr (s\<lparr>procs := procs s @ [c]\<rparr>)"
proof -
  from assms obtain out where "run w (length (procs s)) c = Inr out"
    unfolding ok_below_def by blast
  then show ?thesis by (simp add: untimed_def CombinedOutput_def)
qed

lemma runCmd_ok_file:
  assumes "\<not> dryrunflag fl" and "ok_below w N" and "length (procs s) < N"
    and "files s fn = Some old"
  shows "\<exists>s'. runCmd w fl name c (OpenFile fn) s = Inr s'
           \<and> procs s' = procs s @ [c] \<and> ticks s' = ticks s + 2
           \<and> files s' = (files s)(fn \<mapsto> old @ record_line name (clock w (Suc (ticks s)) - clock w (ticks s)))"
proof -
  from assms obtain out where "run w (length (procs s)) c = Inr out"
    unfolding ok_below_def by blast
  with assms(1,4) show ?thesis
    by (simp add: runCmd_def now_def CombinedOutput_def eprint_def fwrite_def Let_def)
qed

lemma runCmd_fail:
  assumes "\<not> dryrunflag fl" and "run w (length (procs s)) c = Inl (e, out)"
  shows "runCmd w fl name c outf s
           = Inl (TimedRunError e out, s\<lparr>procs := procs s @ [c], ticks := Suc (ticks s)\<rparr>)"
  using assms by (simp add: runCmd_def now_def CombinedOutput_def Let_def)

lemma timed_iter_ok:
  assumes "\<not> dryrunflag fl" and "ok_below w N" and "length (procs s) + 2 \<le> N"
    and "files s fn = Some old"
  shows "\<exists>s'. timed_iter w fl cs v sargs name (OpenFile fn) i s = Inr s'
           \<and> procs s' = procs s @ [clean_cmd cs, timed_cmd w v sargs] \<and> ticks s' = ticks s + 2
           \<and> files s' = (files s)(fn \<mapsto> old @ record_line name (clock w (Suc (ticks s)) - clock w (ticks s)))"
proof -
  define s0 where "s0 = (if verbflag fl
               then eprint (''... timing run '' @ sprintf_d i @ '' for variant '' @ tag v @ [NL]) s
               else s)"
  have p0: "procs s0 = procs s" "files s0 = files s" "ticks s0 = ticks s"
    by (simp_all add: s0_def eprint_def)
  define s1 where "s1 = s0\<lparr>procs := procs s0 @ [clean_cmd cs]\<rparr>"
  have u: "untimed w (Command sh [cs]) (\<lambda>out. []) s0 = Inr s1"
    unfolding s1_def clean_cmd_def using assms(2,3) p0 by (intro untimed_ok [of w N]) simp_all
  define s2 where "s2 = (if verbflag fl
                       then eprint (''... kicking off timing run '' @ sh @ '' '' @ show_strs sargs @ [NL]) s1
                       else s1)"
  have p2: "procs s2 = procs s @ [clean_cmd cs]" "files s2 = files s" "ticks s2 = ticks s"
    by (simp_all add: s2_def s1_def p0 eprint_def)
  from runCmd_ok_file [OF assms(1,2), of s2 fn old name "timed_cmd w v sargs"] p2 assms(3,4)
  obtain s' where "runCmd w fl name (timed_cmd w v sargs) (OpenFile fn) s2 = Inr s'"
    "procs s' = procs s2 @ [timed_cmd w v sargs]" "ticks s' = ticks s2 + 2"
    "files s' = (files s2)(fn \<mapsto> old @ record_line name (clock w (Suc (ticks s2)) - clock w (ticks s2)))"
    by auto
  with u p2 show ?thesis
    by (simp add: timed_iter_def Let_def s0_def [symmetric] s2_def [symmetric])
qed

lemma timed_iter_fail:
  assumes "\<not> dryrunflag fl" and "ok_below w (Suc (length (procs s)))"
    and "run w (Suc (length (procs s))) (timed_cmd w v sargs) = Inl (e, out)"
  shows "\<exists>s'. timed_iter w fl cs v sargs name outf i s = Inl (TimedRunError e out, s')
           \<and> procs s' = procs s @ [clean_cmd cs, timed_cmd w v sargs]
           \<and> files s' = files s"
proof -
  define s0 where "s0 = (if verbflag fl
               then eprint (''... timing run '' @ sprintf_d i @ '' for variant '' @ tag v @ [NL]) s
               else s)"
  have p0: "procs s0 = procs s" "files s0 = files s" "ticks s0 = ticks s"
    by (simp_all add: s0_def eprint_def)
  define s1 where "s1 = s0\<lparr>procs := procs s0 @ [clean_cmd cs]\<rparr>"
  have u: "untimed w (Command sh [cs]) (\<lambda>out. []) s0 = Inr s1"
    unfolding s1_def clean_cmd_def using assms(2) p0
    by (intro untimed_ok [of w "Suc (length (procs s))"]) simp_all
  define s2 where "s2 = (if verbflag fl
                       then eprint (''... kicking off timing run '' @ sh @ '' '' @ show_strs sargs @ [NL]) s1
                       else s1)"
  have p2: "procs s2 = procs s @ [clean_cmd cs]" "files s2 = files s" "ticks s2 = ticks s"
    by (simp_all add: s2_def s1_def p0 eprint_def)
  have "run w (length (procs s2)) (timed_cmd w v sargs) = Inl (e, out)"
    using assms(3) p2 by simp
  from runCmd_fail [OF assms(1) this, of name outf] u p2 show ?thesis
    by (simp add: timed_iter_def Let_def s0_def [symmetric] s2_def [symmetric])
qed

lemma timing_loop_ok:
  assumes "\<not> dryrunflag fl" and "nat (numitflag fl - i) = k"
    and "ok_below w (length (procs s) + 2 * k)" and "files s fn = Some old"
  shows "\<exists>s'. timing_loop w fl cs v sargs name (OpenFile fn) i s = Inr s'
           \<and> procs s' = procs s @ concat (replicate k [clean_cmd cs, timed_cmd w v sargs])
           \<and> ticks s' = ticks s + 2 * k
           \<and> files s' = (files s)(fn \<mapsto> old @ record_lines w name (ticks s) k)"
  using assms(2-)
proof (induction k arbitrary: i s old)
  case 0
  then have "\<not> i < numitflag fl" by simp
  with 0 show ?case
    by (subst timing_loop.simps) (simp add: fun_upd_idem)
next
  case (Suc k)
  then have lt: "i < numitflag fl" and k: "nat (numitflag fl - (i + 1)) = k" by auto
  from timed_iter_ok [OF assms(1) Suc.prems(2) _ Suc.prems(3), of cs v sargs name i]
  obtain s1 where s1: "timed_iter w fl cs v sargs name (OpenFile fn) i s = Inr s1"
    "procs s1 = procs s @ [clean_cmd cs, timed_cmd w v sargs]" "ticks s1 = ticks s + 2"
    "files s1 = (files s)(fn \<mapsto> old @ record_line name (clock w (Suc (ticks s)) - clock w (ticks s)))"
    by auto
  have ok: "ok_below w (length (procs s1) + 2 * k)"
    using Suc.prems(2) s1(2) by simp
  have f1: "files s1 fn = Some (old @ record_line name (clock w (Suc (ticks s)) - clock w (ticks s)))"
    using s1(4) by simp
  from Suc.IH [OF k ok f1] obtain s' where
    s': "timing_loop w fl cs v sargs name (OpenFile fn) (i + 1) s1 = Inr s'"
    "procs s' = procs s1 @ concat (replicate k [clean_cmd cs, timed_cmd w v sargs])"
    "ticks s' = ticks s1 + 2 * k"
    "files s' = (files s1)(fn \<mapsto> (old @ record_line name (clock w (Suc (ticks s)) - clock w (ticks s)))
                                   @ record_lines w name (ticks s1) k)"
    by blast
  have "timing_loop w fl cs v sargs name (OpenFile fn) i s = Inr s'"
    using lt s1(1) s'(1) by (subst timing_loop.simps) simp
  with s1 s' show ?case by (auto simp: fun_eq_iff)
qed

lemma timing_loop_fail:
  assumes "\<not> dryrunflag fl" and "nat (numitflag fl - i) = k" and "j < k"
    and "ok_below w (length (procs s) + 2 * j + 1)"
    and "run w (length (procs s) + 2 * j + 1) (timed_cmd w v sargs) = Inl (e, out)"
    and "files s fn = Some old"
  shows "\<exists>s'. timing_loop w fl cs v sargs name (OpenFile fn) i s = Inl (TimedRunError e out, s')
           \<and> procs s' = procs s @ concat (replicate (Suc j) [clean_cmd cs, timed_cmd w v sargs])
           \<and> files s' = (files s)(fn \<mapsto> old @ record_lines w name (ticks s) j)"
  using assms(2-)
proof (induction j arbitrary: i s old k)
  case 0
  then have lt: "i < numitflag fl" by auto
  from timed_iter_fail [OF assms(1), of w s v sargs e out cs name "OpenFile fn" i] 0
  obtain s' where "timed_iter w fl cs v sargs name (OpenFile fn) i s = Inl (TimedRunError e out, s')"
    "procs s' = procs s @ [clean_cmd cs, timed_cmd w v sargs]" "files s' = files s"
    by auto
  with lt 0 show ?case
    by (subst timing_loop.simps) (simp add: fun_upd_idem)
next
  case (Suc j)
  then have lt: "i < numitflag fl" by auto
  from Suc.prems obtain k' where k': "k = Suc k'" "nat (numitflag fl - (i + 1)) = k'" "j < k'"
    by (cases k) auto
  from timed_iter_ok [OF assms(1) Suc.prems(3) _ Suc.prems(5), of cs v sargs name i]
  obtain s1 where s1: "timed_iter w fl cs v sargs name (OpenFile fn) i s = Inr s1"
    "procs s1 = procs s @ [clean_cmd cs, timed_cmd w v sargs]" "ticks s1 = ticks s + 2"
    "files s1 = (files s)(fn \<mapsto> old @ record_line name (clock w (Suc (ticks s)) - clock w (ticks s)))"
    by auto
  have ok: "ok_below w (length (procs s1) + 2 * j + 1)"
    using Suc.prems(3) s1(2) by simp
  have rn: "run w (length (procs s1) + 2 * j + 1) (timed_cmd w v sargs) = Inl (e, out)"
    using Suc.prems(4) s1(2) by simp
  have f1: "files s1 fn = Some (old @ record_line name (clock w (Suc (ticks s)) - clock w (ticks s)))"
    using s1(4) by simp
  from Suc.IH [OF k'(2,3) ok rn f1] obtain s' where
    s': "timing_loop w fl cs v sargs name (OpenFile fn) (i + 1) s1 = Inl (TimedRunError e out, s')"
    "procs s' = procs s1 @ concat (replicate (Suc j) [clean_cmd cs, timed_cmd w v sargs])"
    "files s' = (files s1)(fn \<mapsto> (old @ record_line name (clock w (Suc (ticks s)) - clock w (ticks s)))
                                   @ record_lines w name (ticks s1) j)"
    by blast
  have "timing_loop w fl cs v sargs name (OpenFile fn) i s = Inl (TimedRunError e out, s')"
    using lt s1(1) s'(1) by (subst timing_loop.simps) simp
  with s1 s' show ?case by (auto simp: fun_eq_iff)
qed

lemma nodebug_iter_ok:
  assumes "\<not> dryrunflag fl" and "ok_below w N" and "length (procs s) + 2 \<le> N"
    and "files s fn = Some old"
  shows "\<exists>s'. nodebug_iter w fl script cs v name (OpenFile fn) i s = Inr s'
           \<and> procs s' = procs s @ [clean_cmd cs, timed_cmd w v [script]] \<and> ticks s' = ticks s + 2
           \<and> files s' = (files s)(fn \<mapsto> old @ record_line (name @ ''-WithoutDebug'')
                                             (clock w (Suc (ticks s)) - clock w (ticks s)))"
proof -
  define s0 where "s0 = (if verbflag fl
               then eprint (''... timing run '' @ sprintf_d i @ '' for nodebug variant '' @ tag v @ [NL]) s
               else s)"
  have p0: "procs s0 = procs s" "files s0 = files s" "ticks s0 = ticks s"
    by (simp_all add: s0_def eprint_def)
  define s1 where "s1 = s0\<lparr>procs := procs s0 @ [clean_cmd cs]\<rparr>"
  have u: "untimed w (Command sh [cs]) (\<lambda>out. []) s0 = Inr s1"
    unfolding s1_def clean_cmd_def using assms(2,3) p0 by (intro untimed_ok [of w N]) simp_all
  have p1: "procs s1 = procs s @ [clean_cmd cs]" "files s1 = files s" "ticks s1 = ticks s"
    by (simp_all add: s1_def p0)
  from runCmd_ok_file [OF assms(1,2), of s1 fn old "name @ ''-WithoutDebug''" "timed_cmd w v [script]"]
    p1 assms(3,4)
  obtain s' where "runCmd w fl (name @ ''-WithoutDebug'') (timed_cmd w v [script]) (OpenFile fn) s1 = Inr s'"
    "procs s' = procs s1 @ [timed_cmd w v [script]]" "ticks s' = ticks s1 + 2"
    "files s' = (files s1)(fn \<mapsto> old @ record_line (name @ ''-WithoutDebug'')
                                        (clock w (Suc (ticks s1)) - clock w (ticks s1)))"
    by auto
  with u p1 show ?thesis
    by (simp add: nodebug_iter_def Let_def s0_def [symmetric])
qed

lemma nodebug_loop_ok:
  assumes "\<not> dryrunflag fl" and "nat (numitflag fl - i) = k"
    and "ok_below w (length (procs s) + 2 * k)" and "files s fn = Some old"
  shows "\<exists>s'. nodebug_loop w fl script cs v name (OpenFile fn) i s = Inr s'
           \<and> procs s' = procs s @ concat (replicate k [clean_cmd cs, timed_cmd w v [script]])
           \<and> ticks s' = ticks s + 2 * k
           \<and> files s' = (files s)(fn \<mapsto> old @ record_lines w (name @ ''-WithoutDebug'') (ticks s) k)"
  using assms(2-)
proof (induction k arbitrary: i s old)
  case 0
  then have "\<not> i < numitflag fl" by simp
  with 0 show ?case
    by (subst nodebug_loop.simps) (simp add: fun_upd_idem)
next
  case (Suc k)
  then have lt: "i < numitflag fl" and k: "nat (numitflag fl - (i + 1)) = k" by auto
  from nodebug_iter_ok [OF assms(1) Suc.prems(2) _ Suc.prems(3), of script cs v name i]
  obtain s1 where s1: "nodebug_iter w fl script cs v name (OpenFile fn) i s = Inr s1"
    "procs s1 = procs s @ [clean_cmd cs, timed_cmd w v [script]]" "ticks s1 = ticks s + 2"
    "files s1 = (files s)(fn \<mapsto> old @ record_line (name @ ''-WithoutDebug'')
                                        (clock w (Suc (ticks s)) - clock w (ticks s)))"
    by auto
  have ok: "ok_below w (length (procs s1) + 2 * k)"
    using Suc.prems(2) s1(2) by simp
  have f1: "files s1 fn = Some (old @ record_line (name @ ''-WithoutDebug'')
                                        (clock w (Suc (ticks s)) - clock w (ticks s)))"
    using s1(4) by simp
  from Suc.IH [OF k ok f1] obtain s' where
    s': "nodebug_loop w fl script cs v name (OpenFile fn) (i + 1) s1 = Inr s'"
    "procs s' = procs s1 @ concat (replicate k [clean_cmd cs, timed_cmd w v [script]])"
    "ticks s' = ticks s1 + 2 * k"
    "files s' = (files s1)(fn \<mapsto> (old @ record_line (name @ ''-WithoutDebug'')
                                        (clock w (Suc (ticks s)) - clock w (ticks s)))
                                   @ record_lines w (name @ ''-WithoutDebug'') (ticks s1) k)"
    by blast
  have "nodebug_loop w fl script cs v name (OpenFile fn) i s = Inr s'"
    using lt s1(1) s'(1) by (subst nodebug_loop.simps) simp
  with s1 s' show ?case by (auto simp: fun_eq_iff)
qed

lemma length_warm_cmds: "length (warm_cmds fl script cs v) = (if buildflag fl then 2 else 3)"
  by (simp add: warm_cmds_def)

lemma untimed_ok_gen:
  assumes "ok_below w N" and "procs s0 = procs s" and "files s0 = files s" and "ticks s0 = ticks s"
    and "length (procs s) < N"
  shows "\<exists>s'. untimed w c msg s0 = Inr s' \<and> procs s' = procs s @ [c] \<and> files s' = files s
           \<and> ticks s' = ticks s"
  using untimed_ok [OF assms(1), of s0 c msg] assms(2-) by simp

lemma initial_clean_ok:
  assumes "ok_below w N" and "length (procs s) < N"
  shows "\<exists>s'. initial_clean w fl cs v s = Inr s' \<and> procs s' = procs s @ [clean_cmd cs]
           \<and> files s' = files s \<and> ticks s' = ticks s"
  unfolding initial_clean_def Let_def clean_cmd_def
  by (rule untimed_ok_gen [OF assms(1) _ _ _ assms(2)]) (simp_all add: eprint_def)

lemma warmup_run_ok:
  assumes "ok_below w N" and "length (procs s) < N"
  shows "\<exists>s'. warmup_run w fl script v tg arg s = Inr s'
           \<and> procs s' = procs s @ (if buildflag fl then [] else [Command sh ([script, ''warmup''] @ arg)])
           \<and> files s' = files s \<and> ticks s' = ticks s"
proof (cases "buildflag fl")
  case True
  then show ?thesis by (simp add: warmup_run_def)
next
  case False
  from untimed_ok_gen [OF assms(1) refl refl refl assms(2)] False show ?thesis
    by (simp add: warmup_run_def)
qed

lemma prime_run_ok:
  assumes "ok_below w N" and "length (procs s) < N"
  shows "\<exists>s'. prime_run w fl v tg sargs s = Inr s' \<and> procs s' = procs s @ [Command sh sargs]
           \<and> files s' = files s \<and> ticks s' = ticks s"
  unfolding prime_run_def Let_def
  by (rule untimed_ok_gen [OF assms(1) _ _ _ assms(2)]) (simp_all add: eprint_def)

lemma run_phases_prefix:
  assumes "ok_below w N" and "length (procs s) + length (warm_cmds fl script cs v) \<le> N"
    and "tg \<noteq> []"
  shows "\<exists>s3. procs s3 = procs s @ warm_cmds fl script cs v \<and> files s3 = files s \<and> ticks s3 = ticks s
            \<and> run_phases w fl script cs v tg outf s =
                (case timing_loop w fl cs v (script # Fields (extras v)) (bench_name tg) outf 0 s3 of
                   Inl e \<Rightarrow> Inl e
                 | Inr s4 \<Rightarrow> nodebug_phase w fl script cs v (bench_name tg) outf s4)"
proof -
  note len = assms(2) [unfolded length_warm_cmds]
  from len have l1: "length (procs s) < N" by (simp split: if_splits)
  from initial_clean_ok [OF assms(1) l1, of fl cs v] obtain s1 where
    s1: "initial_clean w fl cs v s = Inr s1" "procs s1 = procs s @ [clean_cmd cs]"
      "files s1 = files s" "ticks s1 = ticks s"
    by blast
  have l2: "buildflag fl \<or> length (procs s1) < N" using len s1(2) by (simp split: if_splits)
  have "\<exists>s2. warmup_run w fl script v tg (Fields (extras v)) s1 = Inr s2
           \<and> procs s2 = procs s1 @ (if buildflag fl then []
                                      else [Command sh ([script, ''warmup''] @ Fields (extras v))])
           \<and> files s2 = files s1 \<and> ticks s2 = ticks s1"
  proof (cases "buildflag fl")
    case True
    then show ?thesis by (simp add: warmup_run_def)
  next
    case False
    with l2 have "length (procs s1) < N" by simp
    from warmup_run_ok [OF assms(1) this] show ?thesis .
  qed
  then obtain s2 where
    s2: "warmup_run w fl script v tg (Fields (extras v)) s1 = Inr s2"
      "procs s2 = procs s1 @ (if buildflag fl then []
                                      else [Command sh ([script, ''warmup''] @ Fields (extras v))])"
      "files s2 = files s1" "ticks s2 = ticks s1"
    by blast
  have l3: "length (procs s2) < N" using len s1(2) s2(2) by (simp split: if_splits)
  from prime_run_ok [OF assms(1) l3, of fl v tg "[script] @ Fields (extras v)"] obtain s3 where
    s3: "prime_run w fl v tg ([script] @ Fields (extras v)) s2 = Inr s3"
      "procs s3 = procs s2 @ [Command sh ([script] @ Fields (extras v))]"
      "files s3 = files s2" "ticks s3 = ticks s2"
    by blast
  have p3: "procs s3 = procs s @ warm_cmds fl script cs v" "files s3 = files s" "ticks s3 = ticks s"
    using s1 s2 s3 by (simp_all add: warm_cmds_def)
  have "run_phases w fl script cs v tg outf s =
                (case timing_loop w fl cs v (script # Fields (extras v)) (bench_name tg) outf 0 s3 of
                   Inl e \<Rightarrow> Inl e
                 | Inr s4 \<Rightarrow> nodebug_phase w fl script cs v (bench_name tg) outf s4)"
    using s1(1) s2(1) s3(1) assms(3) by (simp add: run_phases_def Let_def)
  with p3 show ?thesis by blast
qed

lemma len_pairs [simp]: "length (concat (replicate n [a, b])) = 2 * n"
  by (induction n) auto

lemma ok_below_mono: "ok_below w N \<Longrightarrow> M \<le> N \<Longrightarrow> ok_below w M"
  by (auto simp: ok_below_def)

lemma split_on_not_Nil: "split_on c s \<noteq> []"
  by (induction s) (auto split: list.splits)

lemma grabVariantHash_ok:
  assumes "run w (length (procs s)) (git_cmd v) = Inr tagline"
    and "split_on (CHR '' '') tagline ! 0 \<noteq> []"
  shows "grabVariantHash w v s
           = Inr (split_on (CHR '' '') tagline ! 0, s\<lparr>procs := procs s @ [git_cmd v]\<rparr>)"
  using assms split_on_not_Nil [of "CHR '' ''" tagline]
  by (simp add: grabVariantHash_def CombinedOutput_def git_cmd_def Let_def)

lemma nodebug_phase_ok:
  assumes "\<not> dryrunflag fl" and "can_create w script" and "script \<noteq> fn"
    and "files s fn = Some old"
    and "ok_below w (length (procs s) + (if nodebugflag fl then 2 * nat (numitflag fl) else 0))"
  shows "\<exists>s'. nodebug_phase w fl script cs v name (OpenFile fn) s = Inr s'
           \<and> procs s' = procs s @ (if nodebugflag fl
                                    then concat (replicate (nat (numitflag fl)) [clean_cmd cs, timed_cmd w v [script]])
                                    else [])
           \<and> ticks s' = ticks s + (if nodebugflag fl then 2 * nat (numitflag fl) else 0)
           \<and> files s' = (if nodebugflag fl
                          then (files s)(script \<mapsto> concat (script_text fl v nodebug_extra),
                                         fn \<mapsto> old @ record_lines w (name @ ''-WithoutDebug'') (ticks s)
                                                        (nat (numitflag fl)))
                          else files s)"
proof (cases "nodebugflag fl")
  case False
  then show ?thesis by (simp add: nodebug_phase_def)
next
  case True
  define s1 where "s1 = s\<lparr>files := (files s)(script \<mapsto> concat (script_text fl v nodebug_extra))\<rparr>"
  have e: "emitScript w fl script v (''-ldflags='' @ [DQ] @ ''-s -w'' @ [DQ]) s = Inr s1"
    using emitScript_ok [OF assms(2), of fl v nodebug_extra s]
    by (simp add: s1_def nodebug_extra_def)
  have p1: "procs s1 = procs s" "ticks s1 = ticks s" "files s1 fn = Some old"
    using assms(3,4) by (simp_all add: s1_def)
  have ok: "ok_below w (length (procs s1) + 2 * nat (numitflag fl))"
    using assms(5) True p1 by simp
  from nodebug_loop_ok [OF assms(1) _ ok p1(3), of 0 script cs v name] obtain s' where
    s': "nodebug_loop w fl script cs v name (OpenFile fn) 0 s1 = Inr s'"
    "procs s' = procs s1 @ concat (replicate (nat (numitflag fl)) [clean_cmd cs, timed_cmd w v [script]])"
    "ticks s' = ticks s1 + 2 * nat (numitflag fl)"
    "files s' = (files s1)(fn \<mapsto> old @ record_lines w (name @ ''-WithoutDebug'') (ticks s1) (nat (numitflag fl)))"
    by auto
  have "nodebug_phase w fl script cs v name (OpenFile fn) s = Inr s'"
    using True e s'(1) by (simp add: nodebug_phase_def)
  with s' p1 True show ?thesis by (simp add: s1_def)
qed

lemma run_phases_ok:
  assumes "\<not> dryrunflag fl" and "tg \<noteq> []" and "can_create w script" and "script \<noteq> fn"
    and "files s fn = Some old"
    and "ok_below w (length (procs s) + length (warm_cmds fl script cs v) + 2 * nat (numitflag fl)
                     + (if nodebugflag fl then 2 * nat (numitflag fl) else 0))"
  shows "\<exists>s'. run_phases w fl script cs v tg (OpenFile fn) s = Inr s'
           \<and> procs s' = procs s @ warm_cmds fl script cs v
                 @ concat (replicate (nat (numitflag fl))
                             [clean_cmd cs, timed_cmd w v (script # Fields (extras v))])
                 @ (if nodebugflag fl
                    then concat (replicate (nat (numitflag fl)) [clean_cmd cs, timed_cmd w v [script]])
                    else [])
           \<and> ticks s' = ticks s + 2 * nat (numitflag fl)
                 + (if nodebugflag fl then 2 * nat (numitflag fl) else 0)
           \<and> files s' = (if nodebugflag fl
                          then (files s)(script \<mapsto> concat (script_text fl v nodebug_extra),
                                 fn \<mapsto> old @ record_lines w (bench_name tg) (ticks s) (nat (numitflag fl))
                                       @ record_lines w (bench_name tg @ ''-WithoutDebug'')
                                           (ticks s + 2 * nat (numitflag fl)) (nat (numitflag fl)))
                          else (files s)(fn \<mapsto> old @ record_lines w (bench_name tg) (ticks s)
                                                         (nat (numitflag fl))))"
proof -
  let ?n = "nat (numitflag fl)"
  let ?N = "length (procs s) + length (warm_cmds fl script cs v) + 2 * ?n
              + (if nodebugflag fl then 2 * ?n else 0)"
  from run_phases_prefix [where s = s and fl = fl and script = script and cs = cs and v = v
      and outf = "OpenFile fn", OF assms(6) _ assms(2)] obtain s3 where
    s3: "procs s3 = procs s @ warm_cmds fl script cs v" "files s3 = files s" "ticks s3 = ticks s"
    and rp: "run_phases w fl script cs v tg (OpenFile fn) s =
                (case timing_loop w fl cs v (script # Fields (extras v)) (bench_name tg) (OpenFile fn) 0 s3 of
                   Inl e \<Rightarrow> Inl e
                 | Inr s4 \<Rightarrow> nodebug_phase w fl script cs v (bench_name tg) (OpenFile fn) s4)"
    by auto
  have ok3: "ok_below w (length (procs s3) + 2 * ?n)"
    by (rule ok_below_mono [OF assms(6)]) (simp add: s3(1))
  have f3: "files s3 fn = Some old" using assms(5) s3(2) by simp
  from timing_loop_ok [OF assms(1) _ ok3 f3, of 0 cs v "script # Fields (extras v)" "bench_name tg"]
  obtain s4 where
    s4: "timing_loop w fl cs v (script # Fields (extras v)) (bench_name tg) (OpenFile fn) 0 s3 = Inr s4"
    "procs s4 = procs s3 @ concat (replicate ?n [clean_cmd cs, timed_cmd w v (script # Fields (extras v))])"
    "ticks s4 = ticks s3 + 2 * ?n"
    "files s4 = (files s3)(fn \<mapsto> old @ record_lines w (bench_name tg) (ticks s3) ?n)"
    by auto
  have ok4: "ok_below w (length (procs s4) + (if nodebugflag fl then 2 * ?n else 0))"
    by (rule ok_below_mono [OF assms(6)]) (simp add: s3(1) s4(2))
  have f4: "files s4 fn = Some (old @ record_lines w (bench_name tg) (ticks s3) ?n)"
    using s4(4) by simp
  from nodebug_phase_ok [OF assms(1,3,4) f4 ok4, of cs v "bench_name tg"] obtain s' where
    s': "nodebug_phase w fl script cs v (bench_name tg) (OpenFile fn) s4 = Inr s'"
    "procs s' = procs s4 @ (if nodebugflag fl
                                    then concat (replicate ?n [clean_cmd cs, timed_cmd w v [script]])
                                    else [])"
    "ticks s' = ticks s4 + (if nodebugflag fl then 2 * ?n else 0)"
    "files s' = (if nodebugflag fl
                          then (files s4)(script \<mapsto> concat (script_text fl v nodebug_extra),
                                         fn \<mapsto> (old @ record_lines w (bench_name tg) (ticks s3) ?n)
                                               @ record_lines w (bench_name tg @ ''-WithoutDebug'') (ticks s4) ?n)
                          else files s4)"
    by blast
  have "run_phases w fl script cs v tg (OpenFile fn) s = Inr s'"
    using rp s4(1) s'(1) by simp
  with s3 s4 s' assms(4) show ?thesis
    by (auto simp: fun_eq_iff)
qed

lemma run_phases_fail:
  assumes "\<not> dryrunflag fl" and "tg \<noteq> []" and "files s fn = Some old"
    and "j < nat (numitflag fl)"
    and "ok_below w (length (procs s) + length (warm_cmds fl script cs v) + 2 * j + 1)"
    and "run w (length (procs s) + length (warm_cmds fl script cs v) + 2 * j + 1)
           (timed_cmd w v (script # Fields (extras v))) = Inl (e, out)"
  shows "\<exists>s'. run_phases w fl script cs v tg (OpenFile fn) s = Inl (TimedRunError e out, s')
           \<and> procs s' = procs s @ warm_cmds fl script cs v
                 @ concat (replicate (Suc j) [clean_cmd cs, timed_cmd w v (script # Fields (extras v))])
           \<and> files s' = (files s)(fn \<mapsto> old @ record_lines w (bench_name tg) (ticks s) j)"
proof -
  from run_phases_prefix [where s = s and fl = fl and script = script and cs = cs and v = v
      and outf = "OpenFile fn", OF assms(5) _ assms(2)] obtain s3 where
    s3: "procs s3 = procs s @ warm_cmds fl script cs v" "files s3 = files s" "ticks s3 = ticks s"
    and rp: "run_phases w fl script cs v tg (OpenFile fn) s =
                (case timing_loop w fl cs v (script # Fields (extras v)) (bench_name tg) (OpenFile fn) 0 s3 of
                   Inl e \<Rightarrow> Inl e
                 | Inr s4 \<Rightarrow> nodebug_phase w fl script cs v (bench_name tg) (OpenFile fn) s4)"
    by auto
  have ok3: "ok_below w (length (procs s3) + 2 * j + 1)"
    using assms(5) s3(1) by (simp add: add.assoc)
  have r3: "run w (length (procs s3) + 2 * j + 1) (timed_cmd w v (script # Fields (extras v))) = Inl (e, out)"
    using assms(6) s3(1) by (simp add: add.assoc)
  have f3: "files s3 fn = Some old" using assms(3) s3(2) by simp
  from timing_loop_fail [OF assms(1) _ assms(4) ok3 r3 f3, of 0 cs "bench_name tg"]
  obtain s' where
    "timing_loop w fl cs v (script # Fields (extras v)) (bench_name tg) (OpenFile fn) 0 s3
       = Inl (TimedRunError e out, s')"
    "procs s' = procs s3 @ concat (replicate (Suc j) [clean_cmd cs, timed_cmd w v (script # Fields (extras v))])"
    "files s' = (files s3)(fn \<mapsto> old @ record_lines w (bench_name tg) (ticks s3) j)"
    by auto
  with rp s3 show ?thesis by simp
qed

lemma open_output_ok:
  "\<not> dryrunflag fl \<Longrightarrow> can_create w fn \<Longrightarrow>
     open_output w fl fn s = Inr (OpenFile fn, s\<lparr>files := (files s)(fn \<mapsto> [])\<rparr>)"
  by (simp add: open_output_def create_trunc_def)

lemma doVariant_open:
  assumes "\<not> dryrunflag fl" and "can_create w script"
    and "run w (length (procs s)) (git_cmd v) = Inr tagline"
    and "split_on (CHR '' '') tagline ! 0 = hash" and "hash \<noteq> []"
    and "can_create w (output_name v hash)"
  shows "\<exists>s3. doVariant w fl script cs v tg s = run_phases w fl script cs v tg (OpenFile (output_name v hash)) s3
           \<and> procs s3 = procs s @ [git_cmd v] \<and> ticks s3 = ticks s
           \<and> files s3 = (files s)(script \<mapsto> concat (script_text fl v []), output_name v hash \<mapsto> [])"
proof -
  define s1 where "s1 = s\<lparr>files := (files s)(script \<mapsto> concat (script_text fl v []))\<rparr>"
  have e: "emitScript w fl script v [] s = Inr s1"
    unfolding s1_def by (rule emitScript_ok [OF assms(2)])
  have r1: "run w (length (procs s1)) (git_cmd v) = Inr tagline"
    using assms(3) by (simp add: s1_def)
  define s2 where "s2 = s1\<lparr>procs := procs s1 @ [git_cmd v]\<rparr>"
  have g: "grabVariantHash w v s1 = Inr (hash, s2)"
    using grabVariantHash_ok [OF r1] assms(4,5) by (simp add: s2_def)
  define s3 where "s3 = s2\<lparr>files := (files s2)(output_name v hash \<mapsto> [])\<rparr>"
  have o: "open_output w fl (output_name v hash) s2 = Inr (OpenFile (output_name v hash), s3)"
    unfolding s3_def by (rule open_output_ok [OF assms(1,6)])
  have "doVariant w fl script cs v tg s = run_phases w fl script cs v tg (OpenFile (output_name v hash)) s3"
    using e g o by (simp add: doVariant_def)
  moreover have "procs s3 = procs s @ [git_cmd v]" "ticks s3 = ticks s"
    "files s3 = (files s)(script \<mapsto> concat (script_text fl v []), output_name v hash \<mapsto> [])"
    by (simp_all add: s3_def s2_def s1_def)
  ultimately show ?thesis by blast
qed

lemma doVariant_ok:
  assumes "\<not> dryrunflag fl" and "tg \<noteq> []" and "can_create w script"
    and "run w (length (procs s)) (git_cmd v) = Inr tagline"
    and "split_on (CHR '' '') tagline ! 0 = hash" and "hash \<noteq> []"
    and "can_create w (output_name v hash)" and "script \<noteq> output_name v hash"
    and "ok_below w (length (procs s) + 1 + length (warm_cmds fl script cs v) + 2 * nat (numitflag fl)
                     + (if nodebugflag fl then 2 * nat (numitflag fl) else 0))"
  shows "\<exists>s'. doVariant w fl script cs v tg s = Inr s'
           \<and> procs s' = procs s @ [git_cmd v] @ warm_cmds fl script cs v
                 @ concat (replicate (nat (numitflag fl))
                             [clean_cmd cs, timed_cmd w v (script # Fields (extras v))])
                 @ (if nodebugflag fl
                    then concat (replicate (nat (numitflag fl)) [clean_cmd cs, timed_cmd w v [script]])
                    else [])
           \<and> ticks s' = ticks s + 2 * nat (numitflag fl)
                 + (if nodebugflag fl then 2 * nat (numitflag fl) else 0)
           \<and> files s' = (files s)
                 (script \<mapsto> concat (script_text fl v (if nodebugflag fl then nodebug_extra else [])),
                  output_name v hash \<mapsto>
                    record_lines w (bench_name tg) (ticks s) (nat (numitflag fl))
                    @ (if nodebugflag fl
                       then record_lines w (bench_name tg @ ''-WithoutDebug'')
                              (ticks s + 2 * nat (numitflag fl)) (nat (numitflag fl))
                       else []))"
proof -
  let ?fn = "output_name v hash"
  from doVariant_open [OF assms(1,3,4,5,6,7), of cs tg] obtain s3 where
    dv: "doVariant w fl script cs v tg s = run_phases w fl script cs v tg (OpenFile ?fn) s3"
    and s3: "procs s3 = procs s @ [git_cmd v]" "ticks s3 = ticks s"
      "files s3 = (files s)(script \<mapsto> concat (script_text fl v []), ?fn \<mapsto> [])"
    by blast
  have f3: "files s3 ?fn = Some []" using s3(3) by simp
  have ok3: "ok_below w (length (procs s3) + length (warm_cmds fl script cs v) + 2 * nat (numitflag fl)
                     + (if nodebugflag fl then 2 * nat (numitflag fl) else 0))"
    by (rule ok_below_mono [OF assms(9)]) (simp add: s3(1))
  from run_phases_ok [OF assms(1,2,3,8) f3 ok3] obtain s' where
    "run_phases w fl script cs v tg (OpenFile ?fn) s3 = Inr s'"
    "procs s' = procs s3 @ warm_cmds fl script cs v
                 @ concat (replicate (nat (numitflag fl))
                             [clean_cmd cs, timed_cmd w v (script # Fields (extras v))])
                 @ (if nodebugflag fl
                    then concat (replicate (nat (numitflag fl)) [clean_cmd cs, timed_cmd w v [script]])
                    else [])"
    "ticks s' = ticks s3 + 2 * nat (numitflag fl)
                 + (if nodebugflag fl then 2 * nat (numitflag fl) else 0)"
    "files s' = (if nodebugflag fl
                          then (files s3)(script \<mapsto> concat (script_text fl v nodebug_extra),
                                 ?fn \<mapsto> [] @ record_lines w (bench_name tg) (ticks s3) (nat (numitflag fl))
                                       @ record_lines w (bench_name tg @ ''-WithoutDebug'')
                                           (ticks s3 + 2 * nat (numitflag fl)) (nat (numitflag fl)))
                          else (files s3)(?fn \<mapsto> [] @ record_lines w (bench_name tg) (ticks s3)
                                                         (nat (numitflag fl))))"
    by blast
  with dv s3 assms(8) show ?thesis
    by (auto simp: fun_eq_iff)
qed

lemma doVariant_fail:
  assumes "\<not> dryrunflag fl" and "tg \<noteq> []" and "can_create w script"
    and "run w (length (procs s)) (git_cmd v) = Inr tagline"
    and "split_on (CHR '' '') tagline ! 0 = hash" and "hash \<noteq> []"
    and "can_create w (output_name v hash)"
    and "j < nat (numitflag fl)"
    and "ok_below w (length (procs s) + 1 + length (warm_cmds fl script cs v) + 2 * j + 1)"
    and "run w (length (procs s) + 1 + length (warm_cmds fl script cs v) + 2 * j + 1)
           (timed_cmd w v (script # Fields (extras v))) = Inl (e, out)"
  shows "\<exists>s'. doVariant w fl script cs v tg s = Inl (TimedRunError e out, s')
           \<and> procs s' = procs s @ [git_cmd v] @ warm_cmds fl script cs v
                 @ concat (replicate (Suc j) [clean_cmd cs, timed_cmd w v (script # Fields (extras v))])
           \<and> files s' = (files s)(script \<mapsto> concat (script_text fl v []),
                                  output_name v hash \<mapsto> record_lines w (bench_name tg) (ticks s) j)"
proof -
  let ?fn = "output_name v hash"
  from doVariant_open [OF assms(1,3,4,5,6,7), of cs tg] obtain s3 where
    dv: "doVariant w fl script cs v tg s = run_phases w fl script cs v tg (OpenFile ?fn) s3"
    and s3: "procs s3 = procs s @ [git_cmd v]" "ticks s3 = ticks s"
      "files s3 = (files s)(script \<mapsto> concat (script_text fl v []), ?fn \<mapsto> [])"
    by blast
  have f3: "files s3 ?fn = Some []" using s3(3) by simp
  have ok3: "ok_below w (length (procs s3) + length (warm_cmds fl script cs v) + 2 * j + 1)"
    by (rule ok_below_mono [OF assms(9)]) (simp add: s3(1))
  have r3: "run w (length (procs s3) + length (warm_cmds fl script cs v) + 2 * j + 1)
           (timed_cmd w v (script # Fields (extras v))) = Inl (e, out)"
    using assms(10) by (simp add: s3(1))
  from run_phases_fail [OF assms(1,2) f3 assms(8) ok3 r3] obtain s' where
    "run_phases w fl script cs v tg (OpenFile ?fn) s3 = Inl (TimedRunError e out, s')"
    "procs s' = procs s3 @ warm_cmds fl script cs v
                 @ concat (replicate (Suc j) [clean_cmd cs, timed_cmd w v (script # Fields (extras v))])"
    "files s' = (files s3)(?fn \<mapsto> [] @ record_lines w (bench_name tg) (ticks s3) j)"
    by blast
  with dv s3 show ?thesis
    by (auto simp: fun_eq_iff)
qed

lemma variants_loop_append:
  "variants_loop w fl script cs tg (xs @ ys) s =
     (case variants_loop w fl script cs tg xs s of
        Inl e \<Rightarrow> Inl e
      | Inr s' \<Rightarrow> variants_loop w fl script cs tg ys s')"
  by (induction xs arbitrary: s) (auto simp: Let_def split: sum.splits)

lemma variants_loop_Cons_fail:
  assumes "\<And>s0. procs s0 = procs s \<Longrightarrow> ticks s0 = ticks s \<Longrightarrow> files s0 = files s \<Longrightarrow>
             \<exists>s'. doVariant w fl script cs v tg s0 = Inl (e, s') \<and> P s'"
  shows "\<exists>s'. variants_loop w fl script cs tg (v # rest) s = Inl (e, s') \<and> P s'"
proof -
  define s0 where "s0 = (if verbflag fl then eprint (''... starting variant: '' @ show_variant v @ [NL]) s else s)"
  have "procs s0 = procs s" "ticks s0 = ticks s" "files s0 = files s"
    by (simp_all add: s0_def eprint_def)
  from assms [OF this] obtain s' where "doVariant w fl script cs v tg s0 = Inl (e, s')" "P s'"
    by blast
  then show ?thesis unfolding s0_def by (auto simp: Let_def)
qed

lemma record_lines_map:
  "record_lines w name t k
     = concat (map (\<lambda>m. record_line name (clock w (t + 2 * m + 1) - clock w (t + 2 * m))) [0..<k])"
proof (induction k arbitrary: t)
  case 0
  then show ?case by simp
next
  case (Suc k)
  have "[0..<Suc k] = 0 # map Suc [0..<k]"
    by (simp add: upt_conv_Cons map_Suc_upt del: upt_Suc)
  then show ?case
    using Suc.IH [of "t + 2"] by (simp add: comp_def del: upt_Suc)
qed

lemma split_on_first: "split_on c s ! 0 = takeWhile (\<lambda>x. x \<noteq> c) s"
  using split_on_not_Nil [of c]
  by (induction s) (auto split: list.splits)

lemma ok_below_demo: "ok_below demo_world N"
  by (simp add: ok_below_def demo_world_def)

lemma ok_below_failing: "ok_below (failing_world N) N"
  by (simp add: ok_below_def failing_world_def demo_world_def)

text \<open>
  Claim C3. In a run that is not a dry run, with the second loop enabled and every process
  succeeding, the processes launched for a variant are, in order: \<open>git\<close>, the untimed
  runs, then for each of the \<open>numit\<close> iterations of the timing loop the clean script and
  the build script with the tokens of the variant's extra arguments, then for each of the
  \<open>numit\<close> iterations of the second loop the clean script and the build script with no
  argument beyond its path.
\<close>

theorem nodebug_loop_drops_extra_args:
  assumes "\<not> dryrunflag fl" and "nodebugflag fl" and "tg \<noteq> []" and "can_create w script"
    and "run w (length (procs s)) (git_cmd v) = Inr tagline"
    and "split_on (CHR '' '') tagline ! 0 = hash" and "hash \<noteq> []"
    and "can_create w (output_name v hash)" and "script \<noteq> output_name v hash"
    and "ok_below w (length (procs s) + 1 + length (warm_cmds fl script cs v) + 4 * nat (numitflag fl))"
  shows "\<exists>s'. doVariant w fl script cs v tg s = Inr s'
           \<and> procs s' = procs s @ [git_cmd v] @ warm_cmds fl script cs v
                 @ concat (replicate (nat (numitflag fl))
                             [clean_cmd cs, timed_cmd w v (script # Fields (extras v))])
                 @ concat (replicate (nat (numitflag fl)) [clean_cmd cs, timed_cmd w v [script]])
           \<and> args (timed_cmd w v (script # Fields (extras v))) = sh # script # Fields (extras v)
           \<and> args (timed_cmd w v [script]) = [sh, script]"
proof -
  have ok: "ok_below w (length (procs s) + 1 + length (warm_cmds fl script cs v) + 2 * nat (numitflag fl)
                     + (if nodebugflag fl then 2 * nat (numitflag fl) else 0))"
    by (rule ok_below_mono [OF assms(10)]) (simp add: assms(2))
  from doVariant_ok [OF assms(1,3,4,5,6,7,8,9) ok] assms(2) show ?thesis
    by (auto simp: timed_cmd_def Command_def Let_def)
qed

theorem nodebug_loop_drops_extra_args_witness:
  "(\<exists>s'. doVariant demo_world demo_flags ''/tmp/relink1'' ''/tmp/clean1'' demo_variant ''relink'' init_state
          = Inr s'
        \<and> map args (procs s')
          = [[''git'', ''-C'', ''/ssd/go.master'', ''log'', ''-1'', ''--oneline''],
             [''/bin/sh'', ''/tmp/clean1''],
             [''/bin/sh'', ''/tmp/relink1'', ''warmup'', ''-gcflags=-N'', ''-v''],
             [''/bin/sh'', ''/tmp/relink1'', ''-gcflags=-N'', ''-v''],
             [''/bin/sh'', ''/tmp/clean1''],
             [''/bin/sh'', ''/tmp/relink1'', ''-gcflags=-N'', ''-v''],
             [''/bin/sh'', ''/tmp/clean1''],
             [''/bin/sh'', ''/tmp/relink1'', ''-gcflags=-N'', ''-v''],
             [''/bin/sh'', ''/tmp/clean1''],
             [''/bin/sh'', ''/tmp/relink1''],
             [''/bin/sh'', ''/tmp/clean1''],
             [''/bin/sh'', ''/tmp/relink1'']])
   \<and> (\<exists>s'. doVariant demo_world demo_flags ''/tmp/relink1'' ''/tmp/clean1'' nbsp_variant ''relink'' init_state
          = Inr s'
        \<and> map args (procs s')
          = [[''git'', ''-C'', ''/ssd/go.nbsp'', ''log'', ''-1'', ''--oneline''],
             [''/bin/sh'', ''/tmp/clean1''],
             [''/bin/sh'', ''/tmp/relink1'', ''warmup'', ''-a'', ''-b''],
             [''/bin/sh'', ''/tmp/relink1'', ''-a'', ''-b''],
             [''/bin/sh'', ''/tmp/clean1''],
             [''/bin/sh'', ''/tmp/relink1'', ''-a'', ''-b''],
             [''/bin/sh'', ''/tmp/clean1''],
             [''/bin/sh'', ''/tmp/relink1'', ''-a'', ''-b''],
             [''/bin/sh'', ''/tmp/clean1''],
             [''/bin/sh'', ''/tmp/relink1''],
             [''/bin/sh'', ''/tmp/clean1''],
             [''/bin/sh'', ''/tmp/relink1'']])"
proof -
  have h: "\<not> dryrunflag demo_flags" "nodebugflag demo_flags" "''relink'' \<noteq> []"
    "can_create demo_world ''/tmp/relink1''"
    "run demo_world (length (procs init_state)) (git_cmd demo_variant) = Inr (''abc123 top commit'' @ [NL])"
    "split_on (CHR '' '') (''abc123 top commit'' @ [NL]) ! 0 = ''abc123''" "''abc123'' \<noteq> []"
    "can_create demo_world (output_name demo_variant ''abc123'')"
    "''/tmp/relink1'' \<noteq> output_name demo_variant ''abc123''"
    by (simp_all add: demo_flags_def demo_world_def git_cmd_def Command_def output_name_def
        demo_variant_def)
  have h': "\<not> dryrunflag demo_flags" "nodebugflag demo_flags" "''relink'' \<noteq> []"
    "can_create demo_world ''/tmp/relink1''"
    "run demo_world (length (procs init_state)) (git_cmd nbsp_variant) = Inr (''abc123 top commit'' @ [NL])"
    "split_on (CHR '' '') (''abc123 top commit'' @ [NL]) ! 0 = ''abc123''" "''abc123'' \<noteq> []"
    "can_create demo_world (output_name nbsp_variant ''abc123'')"
    "''/tmp/relink1'' \<noteq> output_name nbsp_variant ''abc123''"
    by (simp_all add: demo_flags_def demo_world_def git_cmd_def Command_def output_name_def
        nbsp_variant_def)
  have f: "Fields ''-gcflags=-N -v'' = [''-gcflags=-N'', ''-v'']"
    "Fields [CHR ''-'', CHR ''a'', CHR 0xC2, CHR 0xA0, CHR ''-'', CHR ''b''] = [''-a'', ''-b'']"
    by (simp_all add: Fields_def byte_val_def IsSpace_def Let_def)
  from nodebug_loop_drops_extra_args [OF h ok_below_demo, of "''/tmp/clean1''"]
  have a: "\<exists>s'. doVariant demo_world demo_flags ''/tmp/relink1'' ''/tmp/clean1'' demo_variant ''relink'' init_state
          = Inr s'
        \<and> map args (procs s')
          = [[''git'', ''-C'', ''/ssd/go.master'', ''log'', ''-1'', ''--oneline''],
             [''/bin/sh'', ''/tmp/clean1''],
             [''/bin/sh'', ''/tmp/relink1'', ''warmup'', ''-gcflags=-N'', ''-v''],
             [''/bin/sh'', ''/tmp/relink1'', ''-gcflags=-N'', ''-v''],
             [''/bin/sh'', ''/tmp/clean1''],
             [''/bin/sh'', ''/tmp/relink1'', ''-gcflags=-N'', ''-v''],
             [''/bin/sh'', ''/tmp/clean1''],
             [''/bin/sh'', ''/tmp/relink1'', ''-gcflags=-N'', ''-v''],
             [''/bin/sh'', ''/tmp/clean1''],
             [''/bin/sh'', ''/tmp/relink1''],
             [''/bin/sh'', ''/tmp/clean1''],
             [''/bin/sh'', ''/tmp/relink1'']]"
    by (auto simp: f demo_flags_def demo_variant_def git_cmd_def warm_cmds_def clean_cmd_def
        timed_cmd_def Command_def sh_def Let_def numeral_2_eq_2 init_state_def)
  from nodebug_loop_drops_extra_args [OF h' ok_below_demo, of "''/tmp/clean1''"]
  have b: "\<exists>s'. doVariant demo_world demo_flags ''/tmp/relink1'' ''/tmp/clean1'' nbsp_variant ''relink'' init_state
          = Inr s'
        \<and> map args (procs s')
          = [[''git'', ''-C'', ''/ssd/go.nbsp'', ''log'', ''-1'', ''--oneline''],
             [''/bin/sh'', ''/tmp/clean1''],
             [''/bin/sh'', ''/tmp/relink1'', ''warmup'', ''-a'', ''-b''],
             [''/bin/sh'', ''/tmp/relink1'', ''-a'', ''-b''],
             [''/bin/sh'', ''/tmp/clean1''],
             [''/bin/sh'', ''/tmp/relink1'', ''-a'', ''-b''],
             [''/bin/sh'', ''/tmp/clean1''],
             [''/bin/sh'', ''/tmp/relink1'', ''-a'', ''-b''],
             [''/bin/sh'', ''/tmp/clean1''],
             [''/bin/sh'', ''/tmp/relink1''],
             [''/bin/sh'', ''/tmp/clean1''],
             [''/bin/sh'', ''/tmp/relink1'']]"
    by (auto simp: f demo_flags_def nbsp_variant_def git_cmd_def warm_cmds_def clean_cmd_def
        timed_cmd_def Command_def sh_def Let_def numeral_2_eq_2 init_state_def)
  from a b show ?thesis by (rule conjI)
qed

lemma demo_hyps:
  "\<not> dryrunflag demo_flags" "nodebugflag demo_flags" "''relink'' \<noteq> []"
  "can_create demo_world ''/tmp/relink1''"
  "run demo_world (length (procs init_state)) (git_cmd demo_variant) = Inr (''abc123 top commit'' @ [NL])"
  "split_on (CHR '' '') (''abc123 top commit'' @ [NL]) ! 0 = ''abc123''" "''abc123'' \<noteq> []"
  "can_create demo_world (output_name demo_variant ''abc123'')"
  "''/tmp/relink1'' \<noteq> output_name demo_variant ''abc123''"
  by (simp_all add: demo_flags_def demo_world_def git_cmd_def Command_def output_name_def
      demo_variant_def)

lemma demo_values:
  "nat (numitflag demo_flags) = 2"
  "output_name demo_variant ''abc123'' = ''out.master.abc123.txt''"
  "bench_name ''relink'' = ''BenchmarkRelinkKubelet''"
  "clock demo_world n = int (n * n)"
  "ticks init_state = 0" "procs init_state = []" "files init_state = Map.empty"
  "[0..<2] = [0, 1]"
  by (simp_all add: demo_flags_def output_name_def demo_variant_def bench_name_def ToUpper_byte_def byte_val_def to_upper_def
      demo_world_def init_state_def upt_conv_Cons)

lemma digits_demo:
  "sprintf_d 1 = ''1''" "sprintf_d 5 = ''5''" "sprintf_d 9 = ''9''" "sprintf_d 13 = ''13''"
  "sprintf_d 17 = ''17''"
  by (simp_all add: fmt_simps)

text \<open>
  Claim C5. In a run that is not a dry run, with the second loop enabled and every process
  succeeding, \<open>doVariant\<close> leaves in the variant's output file exactly \<open>numit\<close> record
  lines under the benchmark name followed by exactly \<open>numit\<close> record lines under that name
  with the suffix \<open>-WithoutDebug\<close>, and leaves the build script regenerated with the
  flag \<open>-ldflags="-s -w"\<close> in its build command.
\<close>

theorem stripped_phase_appends:
  assumes "\<not> dryrunflag fl" and "nodebugflag fl" and "tg \<noteq> []" and "can_create w script"
    and "run w (length (procs s)) (git_cmd v) = Inr tagline"
    and "split_on (CHR '' '') tagline ! 0 = hash" and "hash \<noteq> []"
    and "can_create w (output_name v hash)" and "script \<noteq> output_name v hash"
    and "ok_below w (length (procs s) + 1 + length (warm_cmds fl script cs v) + 4 * nat (numitflag fl))"
  shows "\<exists>s'. doVariant w fl script cs v tg s = Inr s'
           \<and> files s' (output_name v hash)
               = Some (concat (map (\<lambda>m. record_line (bench_name tg)
                                          (clock w (ticks s + 2 * m + 1) - clock w (ticks s + 2 * m)))
                                [0..<nat (numitflag fl)])
                       @ concat (map (\<lambda>m. record_line (bench_name tg @ ''-WithoutDebug'')
                                          (clock w (ticks s + 2 * nat (numitflag fl) + 2 * m + 1)
                                           - clock w (ticks s + 2 * nat (numitflag fl) + 2 * m)))
                                [0..<nat (numitflag fl)]))
           \<and> files s' script = Some (concat (script_text fl v (''-ldflags='' @ [DQ] @ ''-s -w'' @ [DQ])))
           \<and> last (script_text fl v (''-ldflags='' @ [DQ] @ ''-s -w'' @ [DQ]))
               = (if perflockflag fl then ''perflock '' else []) @ ''go build -o /tmp/kubelet.'' @ tag v
                 @ '' -ldflags='' @ [DQ] @ ''-s -w'' @ [DQ] @ '' k8s.io/kubernetes/cmd/kubelet'' @ [NL]"
proof -
  have ok: "ok_below w (length (procs s) + 1 + length (warm_cmds fl script cs v) + 2 * nat (numitflag fl)
                     + (if nodebugflag fl then 2 * nat (numitflag fl) else 0))"
    by (rule ok_below_mono [OF assms(10)]) (simp add: assms(2))
  have l: "last (script_text fl v (''-ldflags='' @ [DQ] @ ''-s -w'' @ [DQ]))
               = (if perflockflag fl then ''perflock '' else []) @ ''go build -o /tmp/kubelet.'' @ tag v
                 @ '' -ldflags='' @ [DQ] @ ''-s -w'' @ [DQ] @ '' k8s.io/kubernetes/cmd/kubelet'' @ [NL]"
    using assms(1) by (simp add: script_text_def Let_def prog_def progpath_def)
  from doVariant_ok [OF assms(1,3,4,5,6,7,8,9) ok] assms(2,9) l show ?thesis
    by (auto simp: record_lines_map nodebug_extra_def)
qed

theorem stripped_phase_appends_witness:
  "\<exists>s'. doVariant demo_world demo_flags ''/tmp/relink1'' ''/tmp/clean1'' demo_variant ''relink'' init_state
          = Inr s'
        \<and> files s' ''out.master.abc123.txt''
          = Some (''BenchmarkRelinkKubelet 1 1 ns/op'' @ [NL]
                  @ ''BenchmarkRelinkKubelet 1 5 ns/op'' @ [NL]
                  @ ''BenchmarkRelinkKubelet-WithoutDebug 1 9 ns/op'' @ [NL]
                  @ ''BenchmarkRelinkKubelet-WithoutDebug 1 13 ns/op'' @ [NL])"
proof -
  from stripped_phase_appends [OF demo_hyps ok_below_demo, of "''/tmp/clean1''"]
  obtain s' where
    r: "doVariant demo_world demo_flags ''/tmp/relink1'' ''/tmp/clean1'' demo_variant ''relink'' init_state
          = Inr s'"
    and f: "files s' (output_name demo_variant ''abc123'')
               = Some (concat (map (\<lambda>m. record_line (bench_name ''relink'')
                                          (clock demo_world (ticks init_state + 2 * m + 1)
                                           - clock demo_world (ticks init_state + 2 * m)))
                                [0..<nat (numitflag demo_flags)])
                       @ concat (map (\<lambda>m. record_line (bench_name ''relink'' @ ''-WithoutDebug'')
                                          (clock demo_world (ticks init_state + 2 * nat (numitflag demo_flags) + 2 * m + 1)
                                           - clock demo_world (ticks init_state + 2 * nat (numitflag demo_flags) + 2 * m)))
                                [0..<nat (numitflag demo_flags)]))"
    by blast
  from f have "files s' ''out.master.abc123.txt''
          = Some (''BenchmarkRelinkKubelet 1 1 ns/op'' @ [NL]
                  @ ''BenchmarkRelinkKubelet 1 5 ns/op'' @ [NL]
                  @ ''BenchmarkRelinkKubelet-WithoutDebug 1 9 ns/op'' @ [NL]
                  @ ''BenchmarkRelinkKubelet-WithoutDebug 1 13 ns/op'' @ [NL])"
    by (simp add: demo_values record_line_def digits_demo)
  with r show ?thesis by blast
qed

text \<open>
  Claim C10. In a run that is not a dry run in which every process succeeds, the output of
  a variant is written to the file \<open>out.<tag>.<revision>.txt\<close>, where the revision is
  the text before the first space of the output of \<open>git -C <goroot> log -1 --oneline\<close>;
  no other file than this one and the build script is changed.
\<close>

theorem output_file_named_by_tag_and_revision:
  assumes "\<not> dryrunflag fl" and "tg \<noteq> []" and "can_create w script"
    and "run w (length (procs s)) (Command ''git'' [''-C'', goroot v, ''log'', ''-1'', ''--oneline''])
           = Inr tagline"
    and "takeWhile (\<lambda>c. c \<noteq> CHR '' '') tagline = hash" and "hash \<noteq> []"
    and "can_create w (''out.'' @ tag v @ ''.'' @ hash @ ''.txt'')"
    and "script \<noteq> ''out.'' @ tag v @ ''.'' @ hash @ ''.txt''"
    and "ok_below w (length (procs s) + 1 + length (warm_cmds fl script cs v) + 2 * nat (numitflag fl)
                     + (if nodebugflag fl then 2 * nat (numitflag fl) else 0))"
  shows "\<exists>s'. doVariant w fl script cs v tg s = Inr s'
           \<and> files s' (''out.'' @ tag v @ ''.'' @ hash @ ''.txt'')
               = Some (record_lines w (bench_name tg) (ticks s) (nat (numitflag fl))
                       @ (if nodebugflag fl
                          then record_lines w (bench_name tg @ ''-WithoutDebug'')
                                 (ticks s + 2 * nat (numitflag fl)) (nat (numitflag fl))
                          else []))
           \<and> (\<forall>f. f \<noteq> script \<and> f \<noteq> ''out.'' @ tag v @ ''.'' @ hash @ ''.txt''
                  \<longrightarrow> files s' f = files s f)"
proof -
  have g: "run w (length (procs s)) (git_cmd v) = Inr tagline"
    using assms(4) by (simp add: git_cmd_def)
  have hs: "split_on (CHR '' '') tagline ! 0 = hash"
    using assms(5) by (simp add: split_on_first)
  have n: "output_name v hash = ''out.'' @ tag v @ ''.'' @ hash @ ''.txt''"
    by (simp add: output_name_def)
  from doVariant_ok [OF assms(1,2,3) g hs assms(6) assms(7,8) [folded n] assms(9)]
  show ?thesis unfolding n by auto
qed

theorem output_file_named_by_tag_and_revision_witness:
  "\<exists>s'. doVariant demo_world demo_flags ''/tmp/relink1'' ''/tmp/clean1'' demo_variant ''relink'' init_state
          = Inr s'
        \<and> files s' ''out.master.abc123.txt'' \<noteq> None
        \<and> files s' ''out.master.txt'' = None"
proof -
  have h: "\<not> dryrunflag demo_flags" "''relink'' \<noteq> []"
    "can_create demo_world ''/tmp/relink1''"
    "run demo_world (length (procs init_state))
       (Command ''git'' [''-C'', goroot demo_variant, ''log'', ''-1'', ''--oneline''])
     = Inr (''abc123 top commit'' @ [NL])"
    "takeWhile (\<lambda>c. c \<noteq> CHR '' '') (''abc123 top commit'' @ [NL]) = ''abc123''" "''abc123'' \<noteq> []"
    "can_create demo_world (''out.'' @ tag demo_variant @ ''.'' @ ''abc123'' @ ''.txt'')"
    "''/tmp/relink1'' \<noteq> ''out.'' @ tag demo_variant @ ''.'' @ ''abc123'' @ ''.txt''"
    by (simp_all add: demo_flags_def demo_world_def Command_def demo_variant_def)
  from output_file_named_by_tag_and_revision [OF h ok_below_demo, of "''/tmp/clean1''"]
  obtain s' where
    r: "doVariant demo_world demo_flags ''/tmp/relink1'' ''/tmp/clean1'' demo_variant ''relink'' init_state
          = Inr s'"
    and f: "\<exists>txt. files s' (''out.'' @ tag demo_variant @ ''.'' @ ''abc123'' @ ''.txt'') = Some txt"
    and o: "\<forall>f. f \<noteq> ''/tmp/relink1'' \<and> f \<noteq> ''out.'' @ tag demo_variant @ ''.'' @ ''abc123'' @ ''.txt''
                  \<longrightarrow> files s' f = files init_state f"
    by blast
  from f have "files s' ''out.master.abc123.txt'' \<noteq> None"
    by (auto simp: demo_variant_def)
  moreover from o [rule_format, of "''out.master.txt''"] have "files s' ''out.master.txt'' = None"
    by (simp add: demo_variant_def init_state_def)
  ultimately show ?thesis using r by blast
qed

lemma first_sep_unique:
  "d \<notin> set p \<Longrightarrow> d \<notin> set q \<Longrightarrow> p @ d # a = q @ d # b \<Longrightarrow> p = q \<and> a = b"
proof (induction p arbitrary: q)
  case Nil
  then show ?case by (cases q) auto
next
  case (Cons c p)
  then show ?case by (cases q) auto
qed

lemma last_sep_unique:
  assumes "a @ d # x = b @ d # y" and "d \<notin> set x" and "d \<notin> set y"
  shows "a = b \<and> x = y"
proof -
  from assms(1) have "rev (a @ d # x) = rev (b @ d # y)" by (rule arg_cong)
  then have e: "rev x @ d # rev a = rev y @ d # rev b"
    by (simp only: rev_append rev.simps append_assoc append_Cons append_Nil)
  have m: "d \<notin> set (rev x)" "d \<notin> set (rev y)" using assms(2,3) by simp_all
  from first_sep_unique [OF m e] show ?thesis by simp
qed

lemma output_name_eq:
  assumes "output_name u hu = output_name v hv" and "CHR ''.'' \<notin> set hu" and "CHR ''.'' \<notin> set hv"
  shows "tag u = tag v"
proof -
  have n: "\<And>t h. output_name t h = ''out.'' @ ((tag t @ CHR ''.'' # h) @ ''.txt'')"
    by (simp only: output_name_def append_assoc append_Cons append_Nil)
  from assms(1)
  have "''out.'' @ ((tag u @ CHR ''.'' # hu) @ ''.txt'') = ''out.'' @ ((tag v @ CHR ''.'' # hv) @ ''.txt'')"
    by (simp only: n)
  then have "(tag u @ CHR ''.'' # hu) @ ''.txt'' = (tag v @ CHR ''.'' # hv) @ ''.txt''"
    by (simp only: same_append_eq)
  then have "tag u @ CHR ''.'' # hu = tag v @ CHR ''.'' # hv"
    by (simp only: append_same_eq)
  from last_sep_unique [OF this assms(2,3)] show ?thesis by (rule conjunct1)
qed

text \<open>
  Claim C4. Let the variants \<open>done\<close> have completed, leaving the state \<open>s\<close>, and let the
  timed run of iteration \<open>j\<close> of the timing loop of the next variant fail, every process
  before it succeeding. Then the harness ends with the error of that run and processes no
  further variant: the failed run is the last process launched, the output file of the
  variant holds the \<open>j\<close> record lines of the runs before it and nothing more, and every
  other file except the build script is as it was in \<open>s\<close>; in particular the output file
  of a variant with another tag is unchanged (revisions being free of dots, its name
  differs).
\<close>

theorem timed_failure_aborts:
  assumes "\<not> dryrunflag fl" and "tg \<noteq> []"
    and "variants_loop w fl script cs tg done s0 = Inr s"
    and "can_create w script"
    and "run w (length (procs s)) (git_cmd v) = Inr tagline"
    and "split_on (CHR '' '') tagline ! 0 = hash" and "hash \<noteq> []"
    and "can_create w (output_name v hash)"
    and "j < nat (numitflag fl)"
    and "ok_below w (length (procs s) + 1 + length (warm_cmds fl script cs v) + 2 * j + 1)"
    and "run w (length (procs s) + 1 + length (warm_cmds fl script cs v) + 2 * j + 1)
           (timed_cmd w v (script # Fields (extras v))) = Inl (e, out)"
  shows "\<exists>s'. variants_loop w fl script cs tg (done @ v # rest) s0 = Inl (TimedRunError e out, s')
           \<and> procs s' = procs s @ [git_cmd v] @ warm_cmds fl script cs v
                 @ concat (replicate (Suc j) [clean_cmd cs, timed_cmd w v (script # Fields (extras v))])
           \<and> files s' (output_name v hash) = Some (record_lines w (bench_name tg) (ticks s) j)
           \<and> (\<forall>f. f \<noteq> script \<and> f \<noteq> output_name v hash \<longrightarrow> files s' f = files s f)
           \<and> (\<forall>u hu. tag u \<noteq> tag v \<and> CHR ''.'' \<notin> set hu \<and> CHR ''.'' \<notin> set hash
                       \<and> output_name u hu \<noteq> script
                  \<longrightarrow> files s' (output_name u hu) = files s (output_name u hu))"
proof -
  let ?P = "\<lambda>s'. procs s' = procs s @ [git_cmd v] @ warm_cmds fl script cs v
                 @ concat (replicate (Suc j) [clean_cmd cs, timed_cmd w v (script # Fields (extras v))])
           \<and> files s' = (files s)(script \<mapsto> concat (script_text fl v []),
                                  output_name v hash \<mapsto> record_lines w (bench_name tg) (ticks s) j)"
  have "\<exists>s'. variants_loop w fl script cs tg (v # rest) s = Inl (TimedRunError e out, s') \<and> ?P s'"
  proof (rule variants_loop_Cons_fail)
    fix t :: state
    assume t: "procs t = procs s" "ticks t = ticks s" "files t = files s"
    have g: "run w (length (procs t)) (git_cmd v) = Inr tagline"
      using assms(5) by (simp only: t)
    have ok: "ok_below w (length (procs t) + 1 + length (warm_cmds fl script cs v) + 2 * j + 1)"
      using assms(10) by (simp only: t)
    have rn: "run w (length (procs t) + 1 + length (warm_cmds fl script cs v) + 2 * j + 1)
           (timed_cmd w v (script # Fields (extras v))) = Inl (e, out)"
      using assms(11) by (simp only: t)
    from doVariant_fail [OF assms(1,2,4) g assms(6,7,8,9) ok rn]
    show "\<exists>s'. doVariant w fl script cs v tg t = Inl (TimedRunError e out, s') \<and> ?P s'"
      by (simp only: t)
  qed
  then obtain s' where
    r: "variants_loop w fl script cs tg (v # rest) s = Inl (TimedRunError e out, s')"
    and p: "procs s' = procs s @ [git_cmd v] @ warm_cmds fl script cs v
                 @ concat (replicate (Suc j) [clean_cmd cs, timed_cmd w v (script # Fields (extras v))])"
    and f: "files s' = (files s)(script \<mapsto> concat (script_text fl v []),
                                  output_name v hash \<mapsto> record_lines w (bench_name tg) (ticks s) j)"
    by blast
  have a: "variants_loop w fl script cs tg (done @ v # rest) s0 = Inl (TimedRunError e out, s')"
    using assms(3) r by (simp add: variants_loop_append)
  have b: "files s' (output_name v hash) = Some (record_lines w (bench_name tg) (ticks s) j)"
    using f by simp
  have c: "\<forall>f. f \<noteq> script \<and> f \<noteq> output_name v hash \<longrightarrow> files s' f = files s f"
    using f by simp
  have d: "\<forall>u hu. tag u \<noteq> tag v \<and> CHR ''.'' \<notin> set hu \<and> CHR ''.'' \<notin> set hash
                       \<and> output_name u hu \<noteq> script
                  \<longrightarrow> files s' (output_name u hu) = files s (output_name u hu)"
  proof (intro allI impI)
    fix u hu
    assume h: "tag u \<noteq> tag v \<and> CHR ''.'' \<notin> set hu \<and> CHR ''.'' \<notin> set hash
                       \<and> output_name u hu \<noteq> script"
    then have "output_name u hu \<noteq> output_name v hash"
      using output_name_eq [of u hu v hash] by metis
    with h c [rule_format, of "output_name u hu"]
    show "files s' (output_name u hu) = files s (output_name u hu)" by metis
  qed
  show ?thesis by (intro exI [of _ s'] conjI a p b c d)
qed

lemma failing_values:
  "can_create (failing_world N) f"
  "clock (failing_world N) n = int (n * n)"
  "run (failing_world N) N c = Inl (''exit status 1'', ''boom'')"
  "n \<noteq> N \<Longrightarrow> run (failing_world N) n (git_cmd v) = Inr (''abc123 top commit'' @ [NL])"
  by (simp_all add: failing_world_def demo_world_def git_cmd_def Command_def)

lemma record_lines_2:
  "record_lines w name t 1 = record_line name (clock w (Suc t) - clock w t)"
  "record_lines w name t 2
     = record_line name (clock w (Suc t) - clock w t)
       @ record_line name (clock w (Suc (t + 2)) - clock w (t + 2))"
  by (simp_all add: numeral_2_eq_2)

theorem timed_failure_aborts_witness:
  "\<exists>s'. variants_loop (failing_world 19) demo_flags ''/tmp/relink1'' ''/tmp/clean1'' ''relink''
            [demo_variant, dev_variant, demo_variant] init_state
          = Inl (TimedRunError ''exit status 1'' ''boom'', s')
        \<and> length (procs s') = 20
        \<and> files s' ''out.dev.abc123.txt'' = Some (''BenchmarkRelinkKubelet 1 17 ns/op'' @ [NL])
        \<and> files s' ''out.master.abc123.txt''
          = Some (''BenchmarkRelinkKubelet 1 1 ns/op'' @ [NL]
                  @ ''BenchmarkRelinkKubelet 1 5 ns/op'' @ [NL]
                  @ ''BenchmarkRelinkKubelet-WithoutDebug 1 9 ns/op'' @ [NL]
                  @ ''BenchmarkRelinkKubelet-WithoutDebug 1 13 ns/op'' @ [NL])"
proof -
  let ?w = "failing_world 19"
  let ?script = "''/tmp/relink1''"
  let ?cs = "''/tmp/clean1''"
  have fl: "\<not> dryrunflag demo_flags" "nodebugflag demo_flags" "\<not> verbflag demo_flags"
    "\<not> buildflag demo_flags" "nat (numitflag demo_flags) = 2"
    by (simp_all add: demo_flags_def)
  have tg: "''relink'' \<noteq> []" by simp
  have hash: "split_on (CHR '' '') (''abc123 top commit'' @ [NL]) ! 0 = ''abc123''" "''abc123'' \<noteq> []"
    by simp_all
  have g1: "run ?w (length (procs init_state)) (git_cmd demo_variant) = Inr (''abc123 top commit'' @ [NL])"
    by (simp add: failing_values init_state_def)
  have ne1: "?script \<noteq> output_name demo_variant ''abc123''"
    by (simp add: output_name_def)
  have ok1: "ok_below ?w (length (procs init_state) + 1 + length (warm_cmds demo_flags ?script ?cs demo_variant)
               + 2 * nat (numitflag demo_flags)
               + (if nodebugflag demo_flags then 2 * nat (numitflag demo_flags) else 0))"
    by (rule ok_below_mono [OF ok_below_failing]) (simp add: fl length_warm_cmds init_state_def)
  from doVariant_ok [OF fl(1) tg failing_values(1) g1 hash failing_values(1) ne1 ok1]
  obtain s where
    d1: "doVariant ?w demo_flags ?script ?cs demo_variant ''relink'' init_state = Inr s"
    and p1: "length (procs s) = 12"
    and t1: "ticks s = 8"
    and f1: "files s ''out.master.abc123.txt''
          = Some (''BenchmarkRelinkKubelet 1 1 ns/op'' @ [NL]
                  @ ''BenchmarkRelinkKubelet 1 5 ns/op'' @ [NL]
                  @ ''BenchmarkRelinkKubelet-WithoutDebug 1 9 ns/op'' @ [NL]
                  @ ''BenchmarkRelinkKubelet-WithoutDebug 1 13 ns/op'' @ [NL])"
    by (auto simp: fl length_warm_cmds demo_values record_lines_2 failing_values record_line_def
        digits_demo)
  have vl: "variants_loop ?w demo_flags ?script ?cs ''relink'' [demo_variant] init_state = Inr s"
    using d1 by (simp add: fl)
  have g2: "run ?w (length (procs s)) (git_cmd dev_variant) = Inr (''abc123 top commit'' @ [NL])"
    by (simp add: failing_values p1)
  have n: "length (procs s) + 1 + length (warm_cmds demo_flags ?script ?cs dev_variant) + 2 * 1 + 1 = 19"
    by (simp add: p1 length_warm_cmds fl)
  have j: "1 < nat (numitflag demo_flags)" by (simp add: fl)
  have ok2: "ok_below ?w (length (procs s) + 1 + length (warm_cmds demo_flags ?script ?cs dev_variant) + 2 * 1 + 1)"
    unfolding n by (rule ok_below_failing)
  have r2: "run ?w (length (procs s) + 1 + length (warm_cmds demo_flags ?script ?cs dev_variant) + 2 * 1 + 1)
           (timed_cmd ?w dev_variant (?script # Fields (extras dev_variant)))
           = Inl (''exit status 1'', ''boom'')"
    unfolding n by (rule failing_values)
  from timed_failure_aborts [OF fl(1) tg vl failing_values(1) g2 hash failing_values(1) j ok2 r2,
      of "[demo_variant]"]
  obtain s' where
    r: "variants_loop ?w demo_flags ?script ?cs ''relink'' ([demo_variant] @ dev_variant # [demo_variant])
          init_state = Inl (TimedRunError ''exit status 1'' ''boom'', s')"
    and p: "procs s' = procs s @ [git_cmd dev_variant] @ warm_cmds demo_flags ?script ?cs dev_variant
                 @ concat (replicate (Suc 1) [clean_cmd ?cs,
                     timed_cmd ?w dev_variant (?script # Fields (extras dev_variant))])"
    and f: "files s' (output_name dev_variant ''abc123'')
              = Some (record_lines ?w (bench_name ''relink'') (ticks s) 1)"
    and o: "\<forall>f. f \<noteq> ?script \<and> f \<noteq> output_name dev_variant ''abc123'' \<longrightarrow> files s' f = files s f"
    by blast
  have c1: "length (procs s') = 20"
    using p by (simp add: p1 length_warm_cmds fl)
  have c2: "files s' ''out.dev.abc123.txt'' = Some (''BenchmarkRelinkKubelet 1 17 ns/op'' @ [NL])"
    using f by (simp add: output_name_def dev_variant_def demo_values t1 record_lines_2
        failing_values record_line_def digits_demo)
  have c3: "files s' ''out.master.abc123.txt'' = files s ''out.master.abc123.txt''"
    using o [rule_format, of "''out.master.abc123.txt''"]
    by (simp add: output_name_def dev_variant_def)
  from r c1 c2 c3 f1 show ?thesis by auto
qed

end
